theory Spec2Isabelle
  imports Main "HOL-Library.Word"
begin

section \<open>Data model\<close>

text \<open>
  The development embeds \<^verbatim>\<open>query_references.go\<close> (package \<^verbatim>\<open>resolvers\<close>).
  Go's \<^verbatim>\<open>int\<close> is modelled as \<^typ>\<open>int\<close>; the additions and subtractions the code
  performs on values that come out of a client-supplied cursor are written with the
  64-bit wrap-around spelled out (\<open>go_add\<close>, \<open>go_sub\<close> below). Counts of in-memory
  elements (\<^verbatim>\<open>len\<close>, \<^verbatim>\<open>recordsScanned\<close>) are natural numbers.
\<close>

definition wrap64 :: "int \<Rightarrow> int" where
  "wrap64 x = (x + 2 ^ 63) mod 2 ^ 64 - 2 ^ 63"

definition go_add :: "int \<Rightarrow> int \<Rightarrow> int" where
  "go_add a b = wrap64 (a + b)"

definition go_sub :: "int \<Rightarrow> int \<Rightarrow> int" where
  "go_sub a b = wrap64 (a - b)"

text \<open>\<^verbatim>\<open>lsifstore.Position\<close>, \<^verbatim>\<open>lsifstore.Range\<close> and \<^verbatim>\<open>lsifstore.Location\<close>.\<close>

record Position =
  Line :: int
  Character :: int

record Range =
  Start :: Position
  End :: Position

record Location =
  loc_DumpID :: int
  loc_Path :: string
  loc_Range :: Range


section \<open>Errors\<close>

text \<open>
  Go errors as values. \<open>StoreError\<close> stands for an opaque error produced by a collaborator;
  \<open>Wrap e msg\<close> is \<^verbatim>\<open>errors.Wrap(e, msg)\<close>; \<open>WrapInvalidCursor e raw\<close> is
  \<^verbatim>\<open>errors.Wrap(e, fmt.Sprintf("invalid cursor: %q", raw))\<close>; \<open>MultiError\<close> is the
  list built by \<^verbatim>\<open>multierror.Append\<close>; \<open>Panic\<close> is a run-time panic (a slice
  expression out of range); \<open>MalformedCursor\<close> is the specification's name for the
  error of a token that does not decode.
\<close>

datatype error =
    ErrConcurrentModification
  | StoreError string
  | Wrap error string
  | WrapInvalidCursor error string
  | MultiError "error list"
  | Panic string
  | MalformedCursor

fun multierror_Append :: "error option \<Rightarrow> error \<Rightarrow> error" where
  "multierror_Append None e = MultiError [e]"
| "multierror_Append (Some (MultiError es)) e = MultiError (es @ [e])"
| "multierror_Append (Some e0) e = MultiError [e0, e]"

section \<open>Uploads, monikers, cursor\<close>

text \<open>
  \<^verbatim>\<open>dbstore.Dump\<close> is declared outside the sources at hand; the code reads only its
  \<^verbatim>\<open>ID\<close>. The remaining fields follow the specification's description of an upload.
\<close>

record Dump =
  ID :: int
  dump_RepositoryID :: int
  dump_Commit :: string
  dump_Root :: string
  dump_Indexer :: string

record adjustedUpload =
  Upload :: Dump
  AdjustedPath :: string
  AdjustedPosition :: Position
  AdjustedPathInBundle :: string

record cursorAdjustedUpload =
  cau_DumpID :: int
  cau_AdjustedPath :: string
  cau_AdjustedPosition :: Position
  cau_AdjustedPathInBundle :: string

record QualifiedMonikerData =
  Scheme :: string
  Identifier :: string
  Kind :: string

text \<open>
  A Go slice that the code compares with \<^verbatim>\<open>nil\<close> is a \<^typ>\<open>'a list option\<close>: \<open>None\<close> is
  the nil slice, \<open>Some []\<close> an allocated empty one. \<^verbatim>\<open>len\<close> and \<^verbatim>\<open>range\<close> do not
  tell them apart.
\<close>

definition go_elems :: "'a list option \<Rightarrow> 'a list" where
  "go_elems s = (case s of None \<Rightarrow> [] | Some xs \<Rightarrow> xs)"

definition go_len :: "'a list option \<Rightarrow> int" where
  "go_len s = int (length (go_elems s))"

record referencesCursor =
  AdjustedUploads :: "cursorAdjustedUpload list option"
  DefinitionUploadIDs :: "int list option"
  OrderedMonikers :: "QualifiedMonikerData list option"
  Phase :: string
  LocalBatchOffset :: int
  LocalOffset :: int
  BatchIDs :: "int list option"
  RemoteBatchOffset :: int
  RemoteOffset :: int

section \<open>Collaborators\<close>

text \<open>
  A record of \<^verbatim>\<open>dbstore.PackageReference\<close> and the scanner returned by
  \<^verbatim>\<open>ReferenceIDsAndFilters\<close>: the sequence of results its \<^verbatim>\<open>Next\<close> will give (an
  \<open>Inl\<close> is a failing call; the end of the list is \<^verbatim>\<open>exists = false\<close>) and the result
  of its \<^verbatim>\<open>Close\<close>.
\<close>

type_synonym byte = "8 word"

record PackageReference =
  ref_DumpID :: int
  ref_Filter :: "byte list"

record PackageReferenceScanner =
  scan_items :: "(error + PackageReference) list"
  scan_closeErr :: "error option"

text \<open>
  The resolver: its fields \<^verbatim>\<open>repositoryID\<close>, \<^verbatim>\<open>commit\<close>, \<^verbatim>\<open>path\<close>, and every
  function the code calls but the sources at hand do not define, taken as a parameter
  (the stores, the methods of the resolver declared in other files, the bloom filter
  decoder and the cursor codec). The context argument, tracing and logging are left
  out. The request-scoped \<^verbatim>\<open>uploadCache\<close>, which the code mutates, is passed and
  returned explicitly as a map.
\<close>

type_synonym uploadCache = "int \<rightharpoonup> Dump"

record 'al queryResolver =
  repositoryID :: int
  commit :: string
  path :: string
  lsifStore_References ::
    "int \<Rightarrow> string \<Rightarrow> int \<Rightarrow> int \<Rightarrow> int \<Rightarrow> int \<Rightarrow> error + (Location list \<times> int)"
  lsifStore_Implementations ::
    "int \<Rightarrow> string \<Rightarrow> int \<Rightarrow> int \<Rightarrow> int \<Rightarrow> int \<Rightarrow> error + (Location list \<times> int)"
  dbStore_ReferenceIDsAndFilters ::
    "int \<Rightarrow> string \<Rightarrow> QualifiedMonikerData list \<Rightarrow> int \<Rightarrow> int
      \<Rightarrow> error + (PackageReferenceScanner \<times> int)"
  dbStore_GetDumpsByIDs :: "int list \<Rightarrow> error + Dump list"
  filterUploadsWithCommits :: "Dump list \<Rightarrow> error + Dump list"
  monikerLocations ::
    "Dump list \<Rightarrow> QualifiedMonikerData list \<Rightarrow> string \<Rightarrow> int \<Rightarrow> int
      \<Rightarrow> error + (Location list \<times> int)"
  adjustUploads :: "int \<Rightarrow> int \<Rightarrow> error + adjustedUpload list"
  orderedMonikers ::
    "adjustedUpload list \<Rightarrow> string \<Rightarrow> error + QualifiedMonikerData list option"
  definitionUploads :: "QualifiedMonikerData list \<Rightarrow> error + Dump list"
  adjustLocations :: "Location list \<Rightarrow> error + 'al list"
  bloomfilter_Decode :: "byte list \<Rightarrow> error + (string \<Rightarrow> bool)"
  decodeCursor :: "string \<Rightarrow> error + referencesCursor"
  encodeCursor :: "referencesCursor \<Rightarrow> string"

section \<open>Range containment\<close>


text \<open>
  \<^verbatim>\<open>rangeContainsPosition\<close> (lines 355-373): four guarded early returns, then
  \<^verbatim>\<open>return true\<close>.
\<close>

definition rangeContainsPosition :: "Range \<Rightarrow> Position \<Rightarrow> bool" where
  "rangeContainsPosition r pos =
     (if Line pos < Line (Start r) then False
      else if Line pos > Line (End r) then False
      else if Line pos = Line (Start r) \<and> Character pos < Character (Start r) then False
      else if Line pos = Line (End r) \<and> Character pos > Character (End r) then False
      else True)"

text \<open>
  The specification's wording: lexicographic order on (line, character), and containment
  as \<open>start \<le> position \<le> end\<close> with both ends inclusive.
\<close>

definition pos_le :: "Position \<Rightarrow> Position \<Rightarrow> bool" where
  "pos_le p q = (Line p < Line q \<or> (Line p = Line q \<and> Character p \<le> Character q))"

definition pos_less :: "Position \<Rightarrow> Position \<Rightarrow> bool" where
  "pos_less p q = (Line p < Line q \<or> (Line p = Line q \<and> Character p < Character q))"

definition spec_contains :: "Range \<Rightarrow> Position \<Rightarrow> bool" where
  "spec_contains r p = (pos_le (Start r) p \<and> pos_le p (End r))"

section \<open>Source locations\<close>

text \<open>
  \<^verbatim>\<open>isSourceLocation\<close> (lines 342-352): the loop over the adjusted uploads returns true
  at the first upload with the location's index and path whose adjusted position lies in
  the location's range.
\<close>

fun isSourceLocation :: "adjustedUpload list \<Rightarrow> Location \<Rightarrow> bool" where
  "isSourceLocation [] location = False"
| "isSourceLocation (u # us) location =
     (if loc_DumpID location = ID (Upload u) \<and> loc_Path location = AdjustedPath u then
        (if rangeContainsPosition (loc_Range location) (AdjustedPosition u) then True
         else isSourceLocation us location)
      else isSourceLocation us location)"

section \<open>Bloom filter test and batch acquisition\<close>

text \<open>\<^verbatim>\<open>testFilter\<close> (lines 446-459); \<open>anyIdentifier\<close> is its loop over the monikers.\<close>

fun anyIdentifier :: "(string \<Rightarrow> bool) \<Rightarrow> QualifiedMonikerData list \<Rightarrow> bool" where
  "anyIdentifier includesIdentifier [] = False"
| "anyIdentifier includesIdentifier (moniker # rest) =
     (if includesIdentifier (Identifier moniker) then True
      else anyIdentifier includesIdentifier rest)"

definition testFilter ::
  "(byte list \<Rightarrow> error + (string \<Rightarrow> bool)) \<Rightarrow> byte list \<Rightarrow> QualifiedMonikerData list
    \<Rightarrow> error + bool" where
  "testFilter decode filter' oms =
     (case decode filter' of
        Inl err \<Rightarrow> Inl (Wrap err ''bloomfilter.Decode'')
      | Inr includesIdentifier \<Rightarrow> Inr (anyIdentifier includesIdentifier oms))"

text \<open>
  A Go \<^verbatim>\<open>map[int]struct{}\<close> is the list of its keys, without repetition, in the order
  of first insertion; \<open>map_put\<close> is the assignment \<^verbatim>\<open>m[k] = struct{}{}\<close>, membership
  the lookup, \<^verbatim>\<open>len\<close> the length.
\<close>

definition map_put :: "int \<Rightarrow> int list \<Rightarrow> int list" where
  "map_put k ks = (if k \<in> set ks then ks else ks @ [k])"

text \<open>
  \<^verbatim>\<open>for id := range ignoreIDs { ignoreIDsMap[id] = struct{}{} }\<close> (lines 393-396): with a
  single loop variable, Go's \<^verbatim>\<open>range\<close> over a slice yields the indices, so the keys
  stored are \<open>0, ..., len - 1\<close>.
\<close>

definition ignoreIDsMap :: "int list \<Rightarrow> int list" where
  "ignoreIDsMap ignoreIDs = foldl (\<lambda>m id. map_put id m) [] (map int [0..<length ignoreIDs])"

text \<open>
  The scan loop of \<^verbatim>\<open>uploadIDsWithReferences\<close> (lines 400-433) over the results the
  scanner will give, with the map \<open>filtered\<close> and the counter \<open>recordsScanned\<close> as
  accumulators. On an exhausted scanner the loop ends, whether by its condition or by
  \<^verbatim>\<open>!exists\<close>.
\<close>

fun scanLoop ::
  "(byte list \<Rightarrow> error + (string \<Rightarrow> bool)) \<Rightarrow> QualifiedMonikerData list \<Rightarrow> int list \<Rightarrow> int
    \<Rightarrow> (error + PackageReference) list \<Rightarrow> int list \<Rightarrow> nat \<Rightarrow> error + (int list \<times> nat)" where
  "scanLoop decode oms ignored limit [] filtered recordsScanned = Inr (filtered, recordsScanned)"
| "scanLoop decode oms ignored limit (item # rest) filtered recordsScanned =
     (if int (length filtered) < limit then
        (case item of
           Inl err \<Rightarrow> Inl (Wrap err ''dbstore.ReferenceIDsAndFilters.Next'')
         | Inr packageReference \<Rightarrow>
             if ref_DumpID packageReference \<in> set filtered then
               scanLoop decode oms ignored limit rest filtered (Suc recordsScanned)
             else if ref_DumpID packageReference \<in> set ignored then
               scanLoop decode oms ignored limit rest filtered (Suc recordsScanned)
             else
               (case testFilter decode (ref_Filter packageReference) oms of
                  Inl err \<Rightarrow> Inl err
                | Inr ok \<Rightarrow>
                    if ok then
                      scanLoop decode oms ignored limit rest
                        (map_put (ref_DumpID packageReference) filtered) (Suc recordsScanned)
                    else scanLoop decode oms ignored limit rest filtered (Suc recordsScanned)))
      else Inr (filtered, recordsScanned))"

text \<open>
  The deferred \<^verbatim>\<open>scanner.Close()\<close> (lines 387-391): a close error is appended to the
  error being returned, or becomes the error of an otherwise successful call.
\<close>

definition deferClose :: "PackageReferenceScanner \<Rightarrow> error + 'a \<Rightarrow> error + 'a" where
  "deferClose scanner res =
     (case scan_closeErr scanner of
        None \<Rightarrow> res
      | Some closeErr \<Rightarrow>
          Inl (multierror_Append (case res of Inl err \<Rightarrow> Some err | Inr v \<Rightarrow> None)
                 (Wrap closeErr ''dbstore.ReferenceIDsAndFilters.Close'')))"

text \<open>
  \<^verbatim>\<open>uploadIDsWithReferences\<close> (lines 381-442). The keys of \<open>filtered\<close> are collected in
  the map's iteration order, which Go leaves unspecified, and then sorted by
  \<^verbatim>\<open>sort.Ints\<close>; the model sorts the keys in insertion order (lemma
  \<open>sort_Ints_any_order\<close> below: the order before sorting does not matter).
\<close>

definition sort_Ints :: "int list \<Rightarrow> int list" where
  "sort_Ints xs = sort xs"

definition uploadIDsWithReferences ::
  "'al queryResolver \<Rightarrow> QualifiedMonikerData list \<Rightarrow> int list \<Rightarrow> int \<Rightarrow> int
    \<Rightarrow> error + (int list \<times> nat \<times> int)" where
  "uploadIDsWithReferences r oms ignoreIDs limit offset =
     (case dbStore_ReferenceIDsAndFilters r (repositoryID r) (commit r) oms limit offset of
        Inl err \<Rightarrow> Inl (Wrap err ''dbstore.ReferenceIDsAndFilters'')
      | Inr (scanner, totalCount) \<Rightarrow>
          deferClose scanner
            (case scanLoop (bloomfilter_Decode r) oms (ignoreIDsMap ignoreIDs) limit
                    (scan_items scanner) [] 0 of
               Inl err \<Rightarrow> Inl err
             | Inr (filtered, recordsScanned) \<Rightarrow>
                 Inr (sort_Ints filtered, recordsScanned, totalCount)))"

section \<open>Hydrating upload records\<close>

text \<open>
  \<^verbatim>\<open>uploadsByIDs\<close> (lines 464-491). When \<^verbatim>\<open>filterUploadsWithCommits\<close> fails the code
  executes \<^verbatim>\<open>return nil, nil\<close>: no uploads, no error, the cache untouched.
\<close>

definition uploadsByIDs ::
  "'al queryResolver \<Rightarrow> uploadCache \<Rightarrow> int list \<Rightarrow> error + (Dump list \<times> uploadCache)" where
  "uploadsByIDs r cache ids =
     (let missingIDs = filter (\<lambda>id. cache id = None) ids;
          existingUploads = List.map_filter cache ids
      in case dbStore_GetDumpsByIDs r missingIDs of
           Inl err \<Rightarrow> Inl (Wrap err ''dbstore.GetDumpsByIDs'')
         | Inr uploads \<Rightarrow>
             (case filterUploadsWithCommits r uploads of
                Inl err \<Rightarrow> Inr ([], cache)
              | Inr newUploads \<Rightarrow>
                  Inr (existingUploads @ newUploads,
                       foldl (\<lambda>c u. c(ID u \<mapsto> u)) cache newUploads)))"

section \<open>Adjusted uploads and definition uploads from the cursor\<close>

text \<open>
  \<^verbatim>\<open>adjustedUploadsFromCursor\<close> (lines 153-189). \<open>hydrateFromCursor\<close> is the loop of the
  resumed branch: it looks every cached index ID up in the upload cache and returns
  \<^verbatim>\<open>ErrConcurrentModification\<close> at the first one that is missing. The function returns
  the adjusted uploads together with the new value of \<^verbatim>\<open>*cursorAdjustedUploads\<close>.
\<close>

fun hydrateFromCursor ::
  "uploadCache \<Rightarrow> cursorAdjustedUpload list \<Rightarrow> adjustedUpload list
    \<Rightarrow> error + adjustedUpload list" where
  "hydrateFromCursor cache [] adjustedUploads = Inr adjustedUploads"
| "hydrateFromCursor cache (u # us) adjustedUploads =
     (case cache (cau_DumpID u) of
        None \<Rightarrow> Inl ErrConcurrentModification
      | Some upload \<Rightarrow>
          hydrateFromCursor cache us
            (adjustedUploads @
              [\<lparr>Upload = upload, AdjustedPath = cau_AdjustedPath u,
                AdjustedPosition = cau_AdjustedPosition u,
                AdjustedPathInBundle = cau_AdjustedPathInBundle u\<rparr>]))"

definition toCursorAdjustedUpload :: "adjustedUpload \<Rightarrow> cursorAdjustedUpload" where
  "toCursorAdjustedUpload au =
     \<lparr>cau_DumpID = ID (Upload au), cau_AdjustedPath = AdjustedPath au,
      cau_AdjustedPosition = AdjustedPosition au,
      cau_AdjustedPathInBundle = AdjustedPathInBundle au\<rparr>"

definition adjustedUploadsFromCursor ::
  "'al queryResolver \<Rightarrow> uploadCache \<Rightarrow> int \<Rightarrow> int \<Rightarrow> cursorAdjustedUpload list option
    \<Rightarrow> error + (adjustedUpload list \<times> cursorAdjustedUpload list option)" where
  "adjustedUploadsFromCursor r cache line character cursorAdjustedUploads =
     (case cursorAdjustedUploads of
        Some cached \<Rightarrow>
          (case hydrateFromCursor cache cached [] of
             Inl err \<Rightarrow> Inl err
           | Inr adjustedUploads \<Rightarrow> Inr (adjustedUploads, Some cached))
      | None \<Rightarrow>
          (case adjustUploads r line character of
             Inl err \<Rightarrow> Inl err
           | Inr adjustedUploads \<Rightarrow>
               Inr (adjustedUploads, Some (map toCursorAdjustedUpload adjustedUploads))))"

text \<open>
  \<^verbatim>\<open>definitionUploadIDsFromCursor\<close> (lines 198-228); \<open>foundAmong\<close> is its inner loop.
\<close>

fun foundAmong :: "int \<Rightarrow> adjustedUpload list \<Rightarrow> bool" where
  "foundAmong i [] = False"
| "foundAmong i (au # rest) = (if i = ID (Upload au) then True else foundAmong i rest)"

definition definitionUploadIDsFromCursor ::
  "'al queryResolver \<Rightarrow> adjustedUpload list \<Rightarrow> QualifiedMonikerData list \<Rightarrow> referencesCursor
    \<Rightarrow> error + (int list \<times> referencesCursor)" where
  "definitionUploadIDsFromCursor r adjustedUploads oms cursor =
     (case DefinitionUploadIDs cursor of
        Some ids \<Rightarrow> Inr (ids, cursor)
      | None \<Rightarrow>
          (case definitionUploads r oms of
             Inl err \<Rightarrow> Inl err
           | Inr defs \<Rightarrow>
               (let definitionUploadIDs =
                      map ID (filter (\<lambda>d. \<not> foundAmong (ID d) adjustedUploads) defs)
                in Inr (definitionUploadIDs,
                        cursor\<lparr>DefinitionUploadIDs := Some definitionUploadIDs\<rparr>))))"

section \<open>Local search phase\<close>

text \<open>
  \<^verbatim>\<open>pageLocalReferences\<close> (lines 234-271). \<open>localLoop\<close> is the loop over
  \<^verbatim>\<open>adjustedUploads[cursor.LocalBatchOffset:]\<close>; the slice expression is evaluated once,
  before the loop, and panics when the offset is negative or exceeds the length.
\<close>

fun localLoop ::
  "'al queryResolver \<Rightarrow> string \<Rightarrow> adjustedUpload list \<Rightarrow> referencesCursor \<Rightarrow> int
    \<Rightarrow> Location list \<Rightarrow> error + (Location list \<times> referencesCursor)" where
  "localLoop r ty [] cursor limit allLocations = Inr (allLocations, cursor)"
| "localLoop r ty (au # rest) cursor limit allLocations =
     (if int (length allLocations) \<ge> limit then Inr (allLocations, cursor)
      else
        (case (if ty = ''implementations'' then lsifStore_Implementations r
               else lsifStore_References r)
                (ID (Upload au)) (AdjustedPathInBundle au)
                (Line (AdjustedPosition au)) (Character (AdjustedPosition au))
                (go_sub limit (int (length allLocations))) (LocalOffset cursor) of
           Inl err \<Rightarrow> Inl (Wrap err ''lsifstore.References'')
         | Inr (locations, totalCount) \<Rightarrow>
             localLoop r ty rest
               (if go_add (LocalOffset cursor) (int (length locations)) \<ge> totalCount
                then cursor\<lparr>LocalOffset := 0,
                            LocalBatchOffset := go_add (LocalBatchOffset cursor) 1\<rparr>
                else cursor\<lparr>LocalOffset := go_add (LocalOffset cursor) (int (length locations))\<rparr>)
               limit (allLocations @ locations)))"

definition pageLocalReferences ::
  "'al queryResolver \<Rightarrow> string \<Rightarrow> adjustedUpload list \<Rightarrow> referencesCursor \<Rightarrow> int
    \<Rightarrow> error + (Location list \<times> bool \<times> referencesCursor)" where
  "pageLocalReferences r ty adjustedUploads cursor limit =
     (if LocalBatchOffset cursor < 0 \<or> int (length adjustedUploads) < LocalBatchOffset cursor
      then Inl (Panic ''slice bounds out of range'')
      else
        (case localLoop r ty (drop (nat (LocalBatchOffset cursor)) adjustedUploads)
                cursor limit [] of
           Inl err \<Rightarrow> Inl err
         | Inr (allLocations, cursor') \<Rightarrow>
             Inr (allLocations,
                  LocalBatchOffset cursor' < int (length adjustedUploads), cursor')))"

section \<open>Remote search phase\<close>

definition maximumIndexesPerMonikerSearch :: int where
  "maximumIndexesPerMonikerSearch = 50"

text \<open>
  The cursor after one round of batch acquisition (lines 294-300): the batch is stored,
  the offset advanced by the number of records scanned, and replaced by \<open>-1\<close> when it
  has reached the total.
\<close>

definition advanceRemoteBatch ::
  "referencesCursor \<Rightarrow> int list \<Rightarrow> nat \<Rightarrow> int \<Rightarrow> referencesCursor" where
  "advanceRemoteBatch cursor referenceUploadIDs recordScanned totalCount =
     (if go_add (RemoteBatchOffset cursor) (int recordScanned) \<ge> totalCount
      then cursor\<lparr>BatchIDs := Some referenceUploadIDs, RemoteBatchOffset := - 1\<rparr>
      else cursor\<lparr>BatchIDs := Some referenceUploadIDs,
                  RemoteBatchOffset := go_add (RemoteBatchOffset cursor) (int recordScanned)\<rparr>)"

text \<open>
  The part of \<^verbatim>\<open>pageRemoteReferences\<close> after the acquisition loop (lines 303-338):
  hydration of the batch's uploads, the moniker search, the offsets, the filter that
  drops source locations, and the \<^verbatim>\<open>hasMore\<close> flag.
\<close>

definition monikerSearch ::
  "'al queryResolver \<Rightarrow> string \<Rightarrow> adjustedUpload list \<Rightarrow> QualifiedMonikerData list
    \<Rightarrow> referencesCursor \<Rightarrow> uploadCache \<Rightarrow> int
    \<Rightarrow> error + (Location list \<times> bool \<times> referencesCursor \<times> uploadCache)" where
  "monikerSearch r lsifDataTable adjustedUploads oms cursor cache limit =
     (case uploadsByIDs r cache (go_elems (BatchIDs cursor)) of
        Inl err \<Rightarrow> Inl err
      | Inr (monikerSearchUploads, cache') \<Rightarrow>
          (case monikerLocations r monikerSearchUploads oms lsifDataTable limit
                  (RemoteOffset cursor) of
             Inl err \<Rightarrow> Inl err
           | Inr (locations, totalCount) \<Rightarrow>
               (let cursor' =
                      (if go_add (RemoteOffset cursor) (int (length locations)) \<ge> totalCount
                       then cursor\<lparr>RemoteOffset := 0, BatchIDs := None\<rparr>
                       else cursor\<lparr>RemoteOffset :=
                                     go_add (RemoteOffset cursor) (int (length locations))\<rparr>);
                    filtered = filter (\<lambda>location. \<not> isSourceLocation adjustedUploads location)
                                 locations
                in Inr (filtered,
                        go_len (BatchIDs cursor') > 0 \<or> RemoteBatchOffset cursor' \<ge> 0,
                        cursor', cache'))))"

text \<open>
  \<^verbatim>\<open>pageRemoteReferences\<close> (lines 281-339). The acquisition loop
  \<^verbatim>\<open>for len(cursor.BatchIDs) == 0\<close> has no bound of its own (a store that keeps
  reporting a total above the offset while its scanner yields nothing makes it spin),
  so the function is partial: \<open>None\<close> is a call that does not return.
\<close>

partial_function (option) pageRemoteReferences ::
  "'al queryResolver \<Rightarrow> string \<Rightarrow> adjustedUpload list \<Rightarrow> QualifiedMonikerData list
    \<Rightarrow> int list \<Rightarrow> referencesCursor \<Rightarrow> uploadCache \<Rightarrow> int
    \<Rightarrow> (error + (Location list \<times> bool \<times> referencesCursor \<times> uploadCache)) option" where
  "pageRemoteReferences r lsifDataTable adjustedUploads oms definitionUploadIDs cursor cache limit =
     (if go_len (BatchIDs cursor) = 0 then
        (if RemoteBatchOffset cursor < 0 then Some (Inr ([], False, cursor, cache))
         else
           (case uploadIDsWithReferences r oms definitionUploadIDs
                   maximumIndexesPerMonikerSearch (RemoteBatchOffset cursor) of
              Inl err \<Rightarrow> Some (Inl err)
            | Inr (referenceUploadIDs, recordScanned, totalCount) \<Rightarrow>
                pageRemoteReferences r lsifDataTable adjustedUploads oms definitionUploadIDs
                  (advanceRemoteBatch cursor referenceUploadIDs recordScanned totalCount)
                  cache limit))
      else Some (monikerSearch r lsifDataTable adjustedUploads oms cursor cache limit))"

declare pageRemoteReferences.simps [code]

section \<open>Resolving a page\<close>

text \<open>
  Phase 1 of \<^verbatim>\<open>References\<close> (lines 89-101): the local page, and the move to the remote
  phase when the local phase reports no more results.
\<close>

definition References_local ::
  "'al queryResolver \<Rightarrow> adjustedUpload list \<Rightarrow> referencesCursor \<Rightarrow> int
    \<Rightarrow> error + (Location list \<times> referencesCursor)" where
  "References_local r adjustedUploads cursor limit =
     (if Phase cursor = ''local'' then
        (case pageLocalReferences r ''references'' adjustedUploads cursor
                (go_sub limit (int (length ([] :: Location list)))) of
           Inl err \<Rightarrow> Inl err
         | Inr (localLocations, hasMore, cursor') \<Rightarrow>
             Inr ([] @ localLocations,
                  if \<not> hasMore then cursor'\<lparr>Phase := ''remote''\<rparr> else cursor'))
      else Inr ([], cursor))"

text \<open>
  The loop of phase 2 (lines 107-118): remote pages are requested until the page is full
  or the remote phase reports no more results, which sets the phase to \<open>done\<close>. The loop
  may not end, and a page request inside it may not return.
\<close>

partial_function (option) References_remoteLoop ::
  "'al queryResolver \<Rightarrow> adjustedUpload list \<Rightarrow> int list \<Rightarrow> int \<Rightarrow> referencesCursor
    \<Rightarrow> uploadCache \<Rightarrow> Location list
    \<Rightarrow> (error + (Location list \<times> referencesCursor \<times> uploadCache)) option" where
  "References_remoteLoop r adjustedUploads definitionUploadIDs limit cursor cache locations =
     (if int (length locations) < limit then
        Option.bind
          (pageRemoteReferences r ''references'' adjustedUploads
             (go_elems (OrderedMonikers cursor)) definitionUploadIDs cursor cache
             (go_sub limit (int (length locations))))
          (\<lambda>res. case res of
             Inl err \<Rightarrow> Some (Inl err)
           | Inr (remoteLocations, hasMore, cursor', cache') \<Rightarrow>
               if \<not> hasMore then
                 Some (Inr (locations @ remoteLocations, cursor'\<lparr>Phase := ''done''\<rparr>, cache'))
               else
                 References_remoteLoop r adjustedUploads definitionUploadIDs limit cursor' cache'
                   (locations @ remoteLocations))
      else Some (Inr (locations, cursor, cache)))"

declare References_remoteLoop.simps [code]

text \<open>Both phases (lines 86-119), from the cursor and the cache to the locations found.\<close>

definition References_search ::
  "'al queryResolver \<Rightarrow> adjustedUpload list \<Rightarrow> int list \<Rightarrow> int \<Rightarrow> referencesCursor
    \<Rightarrow> uploadCache \<Rightarrow> (error + (Location list \<times> referencesCursor \<times> uploadCache)) option" where
  "References_search r adjustedUploads definitionUploadIDs limit cursor cache =
     (case References_local r adjustedUploads cursor limit of
        Inl err \<Rightarrow> Some (Inl err)
      | Inr (locations, cursor') \<Rightarrow>
          if Phase cursor' = ''remote'' then
            References_remoteLoop r adjustedUploads definitionUploadIDs limit cursor' cache
              locations
          else Some (Inr (locations, cursor', cache)))"

text \<open>
  \<^verbatim>\<open>References\<close> (lines 24-139): the cursor is decoded, the adjusted uploads, the ordered
  monikers and the definition upload IDs are taken from it or computed and stored in it,
  both phases run, the locations are adjusted, and the cursor is encoded unless the
  phase is \<open>done\<close>. The result carries the upload cache as the call leaves it.
\<close>

definition References ::
  "'al queryResolver \<Rightarrow> uploadCache \<Rightarrow> int \<Rightarrow> int \<Rightarrow> int \<Rightarrow> string
    \<Rightarrow> (error + ('al list \<times> string \<times> uploadCache)) option" where
  "References r cache line character limit rawCursor =
     (case decodeCursor r rawCursor of
        Inl err \<Rightarrow> Some (Inl (WrapInvalidCursor err rawCursor))
      | Inr cursor0 \<Rightarrow>
     (case adjustedUploadsFromCursor r cache line character (AdjustedUploads cursor0) of
        Inl err \<Rightarrow> Some (Inl err)
      | Inr (adjustedUploads, cached) \<Rightarrow>
     (case (if OrderedMonikers cursor0 = None
            then orderedMonikers r adjustedUploads ''export''
            else Inr (OrderedMonikers cursor0)) of
        Inl err \<Rightarrow> Some (Inl err)
      | Inr oms \<Rightarrow>
     (case definitionUploadIDsFromCursor r adjustedUploads (go_elems oms)
             (cursor0\<lparr>AdjustedUploads := cached, OrderedMonikers := oms\<rparr>) of
        Inl err \<Rightarrow> Some (Inl err)
      | Inr (definitionUploadIDs, cursor1) \<Rightarrow>
     (case References_search r adjustedUploads definitionUploadIDs limit cursor1 cache of
        None \<Rightarrow> None
      | Some (Inl err) \<Rightarrow> Some (Inl err)
      | Some (Inr (locations, cursor2, cache')) \<Rightarrow>
     (case adjustLocations r locations of
        Inl err \<Rightarrow> Some (Inl err)
      | Inr adjustedLocations \<Rightarrow>
          Some (Inr (adjustedLocations,
                     if Phase cursor2 \<noteq> ''done'' then encodeCursor r cursor2 else [],
                     cache'))))))))"

section \<open>Example collaborators\<close>

text \<open>
  Concrete collaborators on which the definitions are evaluated. \<open>toyDecode\<close> is a
  stand-in bloom filter: the bytes list the lengths of the identifiers the index
  contains, so it has false positives and no false negatives, and the empty filter does
  not decode.
\<close>

definition toyDecode :: "byte list \<Rightarrow> error + (string \<Rightarrow> bool)" where
  "toyDecode bs =
     (if bs = [] then Inl (StoreError ''empty filter'')
      else Inr (\<lambda>identifier. of_nat (length identifier) \<in> set bs))"

definition idleResolver :: "Location queryResolver" where
  "idleResolver =
     \<lparr>repositoryID = 1, commit = ''c2'', path = ''a.go'',
      lsifStore_References = (\<lambda>i p l c n off. Inr ([], 0)),
      lsifStore_Implementations = (\<lambda>i p l c n off. Inr ([], 0)),
      dbStore_ReferenceIDsAndFilters =
        (\<lambda>repo cm ms n off. Inr (\<lparr>scan_items = [], scan_closeErr = None\<rparr>, 0)),
      dbStore_GetDumpsByIDs = (\<lambda>ids. Inr []),
      filterUploadsWithCommits = (\<lambda>ds. Inr ds),
      monikerLocations = (\<lambda>ds ms t n off. Inr ([], 0)),
      adjustUploads = (\<lambda>l c. Inr []),
      orderedMonikers = (\<lambda>aus role. Inr (Some [])),
      definitionUploads = (\<lambda>ms. Inr []),
      adjustLocations = (\<lambda>ls. Inr ls),
      bloomfilter_Decode = toyDecode,
      decodeCursor = (\<lambda>raw. Inl (StoreError ''no codec'')),
      encodeCursor = (\<lambda>c. ''next'')\<rparr>"

definition fooMoniker :: QualifiedMonikerData where
  "fooMoniker = \<lparr>Scheme = ''gomod'', Identifier = ''foo'', Kind = ''export''\<rparr>"

definition candidate :: "int \<Rightarrow> byte list \<Rightarrow> error + PackageReference" where
  "candidate i bs = Inr \<lparr>ref_DumpID = i, ref_Filter = bs\<rparr>"

definition scanOf :: "(error + PackageReference) list \<Rightarrow> int \<Rightarrow> Location queryResolver" where
  "scanOf records totalCount =
     idleResolver\<lparr>dbStore_ReferenceIDsAndFilters :=
       (\<lambda>repo cm ms n off. Inr (\<lparr>scan_items = records, scan_closeErr = None\<rparr>, totalCount))\<rparr>"

definition dumpOf :: "int \<Rightarrow> Dump" where
  "dumpOf i = \<lparr>ID = i, dump_RepositoryID = 1, dump_Commit = ''c1'', dump_Root = ''/'',
               dump_Indexer = ''lsif-go''\<rparr>"

definition uploadAt :: "int \<Rightarrow> int \<Rightarrow> int \<Rightarrow> adjustedUpload" where
  "uploadAt i l c =
     \<lparr>Upload = dumpOf i, AdjustedPath = ''a.go'',
      AdjustedPosition = \<lparr>Line = l, Character = c\<rparr>, AdjustedPathInBundle = ''a.go''\<rparr>"

definition locationAt :: "int \<Rightarrow> int \<Rightarrow> Location" where
  "locationAt i l =
     \<lparr>loc_DumpID = i, loc_Path = ''a.go'',
      loc_Range = \<lparr>Start = \<lparr>Line = l, Character = 0\<rparr>, End = \<lparr>Line = l, Character = 8\<rparr>\<rparr>\<rparr>"

definition freshCursor :: referencesCursor where
  "freshCursor =
     \<lparr>AdjustedUploads = None, DefinitionUploadIDs = None, OrderedMonikers = None,
      Phase = ''local'', LocalBatchOffset = 0, LocalOffset = 0, BatchIDs = None,
      RemoteBatchOffset = 0, RemoteOffset = 0\<rparr>"

text \<open>A symbol graph store that pages through a fixed list of locations.\<close>

definition pagedStore ::
  "Location list \<Rightarrow> int \<Rightarrow> string \<Rightarrow> int \<Rightarrow> int \<Rightarrow> int \<Rightarrow> int \<Rightarrow> error + (Location list \<times> int)" where
  "pagedStore locs i p l c n off = Inr (take (nat n) (drop (nat off) locs), int (length locs))"

definition threeRefs :: "Location queryResolver" where
  "threeRefs =
     idleResolver\<lparr>lsifStore_References :=
       pagedStore [locationAt 1 1, locationAt 1 2, locationAt 1 3]\<rparr>"

text \<open>Two uploads, with three and two local references.\<close>

definition twoUploads :: "Location queryResolver" where
  "twoUploads =
     idleResolver\<lparr>lsifStore_References :=
       (\<lambda>i. if i = 1 then pagedStore [locationAt 1 1, locationAt 1 2, locationAt 1 3] i
            else pagedStore [locationAt 2 1, locationAt 2 2] i)\<rparr>"

text \<open>
  A resolver whose candidate scan yields the given records, whose store knows every
  upload, and whose moniker search pages through the given locations.
\<close>

definition remoteResolver ::
  "(error + PackageReference) list \<Rightarrow> int \<Rightarrow> Location list \<Rightarrow> Location queryResolver" where
  "remoteResolver records totalCount found =
     (scanOf records totalCount)
       \<lparr>dbStore_GetDumpsByIDs := (\<lambda>ids. Inr (map dumpOf ids)),
        monikerLocations :=
          (\<lambda>ds ms t n off. Inr (take (nat n) (drop (nat off) found), int (length found)))\<rparr>"

section \<open>Cursor codec\<close>

text \<open>
  Modelled from the spec: \<^verbatim>\<open>decodeCursor\<close> and \<^verbatim>\<open>encodeCursor\<close>, which \<^verbatim>\<open>References\<close>
  calls and which are defined in a file that is not among the sources. The
  specification fixes the contract and leaves the wire format open: a token is a string;
  the empty token decodes to the zero-valued cursor with phase \<open>local\<close>; a token that
  does not parse, or whose schema version is not the current one, is rejected as a
  malformed cursor; every field survives encoding followed by decoding, nil slices and
  empty slices being kept apart. The format chosen here is a version number followed by
  the fields in the order of the record, each one self-delimiting: a natural number in
  decimal closed by a semicolon, an integer as an optional minus sign and its magnitude,
  a string and a list prefixed by their length, a nil slice as \<open>N\<close> and any other slice
  as \<open>S\<close> followed by the list.
\<close>

definition cursorVersion :: nat where
  "cursorVersion = 1"

type_synonym 'a parser = "string \<Rightarrow> ('a \<times> string) option"

definition digit :: "nat \<Rightarrow> char" where
  "digit d = char_of (48 + d)"

definition is_digit :: "char \<Rightarrow> bool" where
  "is_digit c = (48 \<le> (of_char c :: nat) \<and> (of_char c :: nat) \<le> 57)"

definition digit_val :: "char \<Rightarrow> nat" where
  "digit_val c = of_char c - 48"

fun digits :: "nat \<Rightarrow> string" where
  "digits n = (if n < 10 then [digit n] else digits (n div 10) @ [digit (n mod 10)])"

declare digits.simps [simp del]

definition enc_nat :: "nat \<Rightarrow> string" where
  "enc_nat n = digits n @ '';''"

fun dec_digits :: "nat \<Rightarrow> nat parser" where
  "dec_digits acc [] = None"
| "dec_digits acc (c # cs) =
     (if c = CHR '';'' then Some (acc, cs)
      else if is_digit c then dec_digits (10 * acc + digit_val c) cs
      else None)"

definition dec_nat :: "nat parser" where
  "dec_nat s = (case s of [] \<Rightarrow> None | c # cs \<Rightarrow> if is_digit c then dec_digits 0 s else None)"

definition enc_int :: "int \<Rightarrow> string" where
  "enc_int i = (if i < 0 then CHR ''-'' # enc_nat (nat (- i)) else enc_nat (nat i))"

definition dec_int :: "int parser" where
  "dec_int s =
     (case s of
        [] \<Rightarrow> None
      | c # cs \<Rightarrow>
          if c = CHR ''-'' then
            (case dec_nat cs of
               None \<Rightarrow> None
             | Some (n, rest) \<Rightarrow> if n = 0 then None else Some (- int n, rest))
          else
            (case dec_nat s of None \<Rightarrow> None | Some (n, rest) \<Rightarrow> Some (int n, rest)))"

definition enc_string :: "string \<Rightarrow> string" where
  "enc_string s = enc_nat (length s) @ s"

definition dec_string :: "string parser" where
  "dec_string s =
     (case dec_nat s of
        None \<Rightarrow> None
      | Some (n, rest) \<Rightarrow> if length rest < n then None else Some (take n rest, drop n rest))"

definition enc_list :: "('a \<Rightarrow> string) \<Rightarrow> 'a list \<Rightarrow> string" where
  "enc_list enc xs = enc_nat (length xs) @ concat (map enc xs)"

fun dec_items :: "'a parser \<Rightarrow> nat \<Rightarrow> 'a list parser" where
  "dec_items dec 0 s = Some ([], s)"
| "dec_items dec (Suc n) s =
     (case dec s of
        None \<Rightarrow> None
      | Some (x, rest) \<Rightarrow>
          (case dec_items dec n rest of
             None \<Rightarrow> None
           | Some (xs, rest') \<Rightarrow> Some (x # xs, rest')))"

definition dec_list :: "'a parser \<Rightarrow> 'a list parser" where
  "dec_list dec s =
     (case dec_nat s of None \<Rightarrow> None | Some (n, rest) \<Rightarrow> dec_items dec n rest)"

definition enc_slice :: "('a \<Rightarrow> string) \<Rightarrow> 'a list option \<Rightarrow> string" where
  "enc_slice enc s = (case s of None \<Rightarrow> ''N'' | Some xs \<Rightarrow> CHR ''S'' # enc_list enc xs)"

definition dec_slice :: "'a parser \<Rightarrow> 'a list option parser" where
  "dec_slice dec s =
     (case s of
        [] \<Rightarrow> None
      | c # cs \<Rightarrow>
          if c = CHR ''N'' then Some (None, cs)
          else if c = CHR ''S'' then
            (case dec_list dec cs of None \<Rightarrow> None | Some (xs, rest) \<Rightarrow> Some (Some xs, rest))
          else None)"

definition enc_Position :: "Position \<Rightarrow> string" where
  "enc_Position p = enc_int (Line p) @ enc_int (Character p)"

definition dec_Position :: "Position parser" where
  "dec_Position s =
     (case dec_int s of
        None \<Rightarrow> None
      | Some (l, s1) \<Rightarrow>
          (case dec_int s1 of
             None \<Rightarrow> None
           | Some (c, s2) \<Rightarrow> Some (\<lparr>Line = l, Character = c\<rparr>, s2)))"

definition enc_cursorAdjustedUpload :: "cursorAdjustedUpload \<Rightarrow> string" where
  "enc_cursorAdjustedUpload u =
     enc_int (cau_DumpID u) @ enc_string (cau_AdjustedPath u)
     @ enc_Position (cau_AdjustedPosition u) @ enc_string (cau_AdjustedPathInBundle u)"

definition dec_cursorAdjustedUpload :: "cursorAdjustedUpload parser" where
  "dec_cursorAdjustedUpload s =
     (case dec_int s of
        None \<Rightarrow> None
      | Some (i, s1) \<Rightarrow>
     (case dec_string s1 of
        None \<Rightarrow> None
      | Some (p, s2) \<Rightarrow>
     (case dec_Position s2 of
        None \<Rightarrow> None
      | Some (pos, s3) \<Rightarrow>
     (case dec_string s3 of
        None \<Rightarrow> None
      | Some (b, s4) \<Rightarrow>
          Some (\<lparr>cau_DumpID = i, cau_AdjustedPath = p, cau_AdjustedPosition = pos,
                 cau_AdjustedPathInBundle = b\<rparr>, s4)))))"

definition enc_moniker :: "QualifiedMonikerData \<Rightarrow> string" where
  "enc_moniker m = enc_string (Scheme m) @ enc_string (Identifier m) @ enc_string (Kind m)"

definition dec_moniker :: "QualifiedMonikerData parser" where
  "dec_moniker s =
     (case dec_string s of
        None \<Rightarrow> None
      | Some (sc, s1) \<Rightarrow>
     (case dec_string s1 of
        None \<Rightarrow> None
      | Some (ident, s2) \<Rightarrow>
     (case dec_string s2 of
        None \<Rightarrow> None
      | Some (k, s3) \<Rightarrow> Some (\<lparr>Scheme = sc, Identifier = ident, Kind = k\<rparr>, s3))))"

definition enc_fields :: "referencesCursor \<Rightarrow> string" where
  "enc_fields c =
     enc_slice enc_cursorAdjustedUpload (AdjustedUploads c)
     @ enc_slice enc_int (DefinitionUploadIDs c)
     @ enc_slice enc_moniker (OrderedMonikers c)
     @ enc_string (Phase c)
     @ enc_int (LocalBatchOffset c)
     @ enc_int (LocalOffset c)
     @ enc_slice enc_int (BatchIDs c)
     @ enc_int (RemoteBatchOffset c)
     @ enc_int (RemoteOffset c)"

definition dec_fields :: "referencesCursor parser" where
  "dec_fields s =
     (case dec_slice dec_cursorAdjustedUpload s of
        None \<Rightarrow> None
      | Some (aus, s1) \<Rightarrow>
     (case dec_slice dec_int s1 of
        None \<Rightarrow> None
      | Some (defs, s2) \<Rightarrow>
     (case dec_slice dec_moniker s2 of
        None \<Rightarrow> None
      | Some (oms, s3) \<Rightarrow>
     (case dec_string s3 of
        None \<Rightarrow> None
      | Some (ph, s4) \<Rightarrow>
     (case dec_int s4 of
        None \<Rightarrow> None
      | Some (lbo, s5) \<Rightarrow>
     (case dec_int s5 of
        None \<Rightarrow> None
      | Some (lo, s6) \<Rightarrow>
     (case dec_slice dec_int s6 of
        None \<Rightarrow> None
      | Some (batch, s7) \<Rightarrow>
     (case dec_int s7 of
        None \<Rightarrow> None
      | Some (rbo, s8) \<Rightarrow>
     (case dec_int s8 of
        None \<Rightarrow> None
      | Some (ro, s9) \<Rightarrow>
          Some (\<lparr>AdjustedUploads = aus, DefinitionUploadIDs = defs, OrderedMonikers = oms,
                 Phase = ph, LocalBatchOffset = lbo, LocalOffset = lo, BatchIDs = batch,
                 RemoteBatchOffset = rbo, RemoteOffset = ro\<rparr>, s9))))))))))"

definition spec_encodeCursor :: "referencesCursor \<Rightarrow> string" where
  "spec_encodeCursor c = enc_nat cursorVersion @ enc_fields c"

definition spec_decodeCursor :: "string \<Rightarrow> error + referencesCursor" where
  "spec_decodeCursor token =
     (if token = [] then Inr freshCursor
      else
        (case dec_nat token of
           None \<Rightarrow> Inl MalformedCursor
         | Some (v, rest) \<Rightarrow>
             if v \<noteq> cursorVersion then Inl MalformedCursor
             else
               (case dec_fields rest of
                  None \<Rightarrow> Inl MalformedCursor
                | Some (c, trailing) \<Rightarrow> if trailing = [] then Inr c else Inl MalformedCursor)))"

section \<open>Notions used to state the properties\<close>

text \<open>
  The adjusted upload that a cached cursor entry stands for, given the upload cache.
\<close>

definition fromCursorAdjustedUpload :: "uploadCache \<Rightarrow> cursorAdjustedUpload \<Rightarrow> adjustedUpload" where
  "fromCursorAdjustedUpload cache u =
     \<lparr>Upload = the (cache (cau_DumpID u)), AdjustedPath = cau_AdjustedPath u,
      AdjustedPosition = cau_AdjustedPosition u,
      AdjustedPathInBundle = cau_AdjustedPathInBundle u\<rparr>"

text \<open>
  The order \<open>local \<rightarrow> remote \<rightarrow> done\<close> on the values of the cursor's \<open>Phase\<close>:
  \<open>phase_advance p q\<close> holds when \<open>q\<close> is \<open>p\<close> or a later phase.
\<close>

definition phase_advance :: "string \<Rightarrow> string \<Rightarrow> bool" where
  "phase_advance p q =
     (q = p \<or> (p = ''local'' \<and> (q = ''remote'' \<or> q = ''done''))
            \<or> (p = ''remote'' \<and> q = ''done''))"

text \<open>
  The scenario of the specification: one upload with three local references, no
  remote candidates; the empty token decodes to the fresh cursor.
\<close>

definition scenarioResolver :: "Location queryResolver" where
  "scenarioResolver =
     threeRefs\<lparr>adjustUploads := (\<lambda>l c. Inr [uploadAt 1 (l - 1) c]),
               decodeCursor := (\<lambda>raw. if raw = [] then Inr freshCursor
                                       else Inl (StoreError ''malformed cursor''))\<rparr>"

text \<open>
  A resumed request: whatever the token, the cursor caches one adjusted upload, of
  index 1.
\<close>

definition resumedResolver :: "Location queryResolver" where
  "resumedResolver =
     threeRefs\<lparr>decodeCursor :=
       (\<lambda>raw. Inr (freshCursor\<lparr>AdjustedUploads :=
                      Some [toCursorAdjustedUpload (uploadAt 1 9 4)]\<rparr>))\<rparr>"

text \<open>
  The cursor of the scenario once the adjusted uploads, the ordered monikers and the
  definition upload IDs have been stored in it.
\<close>

definition scenarioCursor :: referencesCursor where
  "scenarioCursor =
     freshCursor\<lparr>AdjustedUploads := Some [toCursorAdjustedUpload (uploadAt 1 9 4)],
                 DefinitionUploadIDs := Some [], OrderedMonikers := Some []\<rparr>"

text \<open>
  The map of kept IDs after one more record has been read, and after the first \<open>k\<close>
  records of a scanner: an ID enters the map when it is neither in it nor ignored and
  its bloom filter tests positive.
\<close>

definition scanStep ::
  "(byte list \<Rightarrow> error + (string \<Rightarrow> bool)) \<Rightarrow> QualifiedMonikerData list \<Rightarrow> int list
    \<Rightarrow> int list \<Rightarrow> error + PackageReference \<Rightarrow> int list" where
  "scanStep decode oms ignored filtered item =
     (case item of
        Inl err \<Rightarrow> filtered
      | Inr packageReference \<Rightarrow>
          if ref_DumpID packageReference \<in> set filtered
             \<or> ref_DumpID packageReference \<in> set ignored then filtered
          else if testFilter decode (ref_Filter packageReference) oms = Inr True
          then map_put (ref_DumpID packageReference) filtered
          else filtered)"

definition keptAfter ::
  "(byte list \<Rightarrow> error + (string \<Rightarrow> bool)) \<Rightarrow> QualifiedMonikerData list \<Rightarrow> int list
    \<Rightarrow> (error + PackageReference) list \<Rightarrow> nat \<Rightarrow> int list" where
  "keptAfter decode oms ignored records k =
     foldl (scanStep decode oms ignored) [] (take k records)"

text \<open>
  The state of the remote loop of \<open>References\<close> (cursor, upload cache, locations) at
  the head of the loop after \<open>n\<close> rounds, each of which requested a remote page with
  the page still short and was told that there are more results; \<open>None\<close> when the run
  has no such state.
\<close>

fun remoteRounds ::
  "'al queryResolver \<Rightarrow> adjustedUpload list \<Rightarrow> int list \<Rightarrow> int \<Rightarrow> nat
    \<Rightarrow> referencesCursor \<times> uploadCache \<times> Location list
    \<Rightarrow> (referencesCursor \<times> uploadCache \<times> Location list) option" where
  "remoteRounds r aus defs limit 0 s = Some s"
| "remoteRounds r aus defs limit (Suc n) (cursor, cache, locations) =
     (if int (length locations) < limit then
        (case pageRemoteReferences r ''references'' aus (go_elems (OrderedMonikers cursor))
                defs cursor cache (go_sub limit (int (length locations))) of
           Some (Inr (remoteLocations, True, cursor', cache')) \<Rightarrow>
             remoteRounds r aus defs limit n (cursor', cache', locations @ remoteLocations)
         | _ \<Rightarrow> None)
      else None)"

section \<open>Properties of range containment\<close>

lemma rangeContainsPosition_lex:
  "rangeContainsPosition r p = (pos_le (Start r) p \<and> pos_le p (End r))"
  unfolding rangeContainsPosition_def pos_le_def by auto

lemma pos_less_iff_not_le: "pos_less p q = (\<not> pos_le q p)"
  unfolding pos_less_def pos_le_def by auto

lemma pos_le_refl: "pos_le p p"
  unfolding pos_le_def by simp

text \<open>
  Claim C8. For every range \<open>r\<close> and position \<open>p\<close>, \<open>rangeContainsPosition r p\<close> holds
  exactly when \<open>start r \<le> p \<le> end r\<close> in the lexicographic (line, character) order,
  both boundaries included; it is false exactly when \<open>p\<close> precedes the start or follows
  the end; and on a range whose start does not follow its end, the start and the end
  themselves are contained.
\<close>

theorem rangeContainsPosition_inclusive_lex:
  "(rangeContainsPosition r p \<longleftrightarrow> spec_contains r p)
   \<and> (\<not> rangeContainsPosition r p \<longleftrightarrow> pos_less p (Start r) \<or> pos_less (End r) p)
   \<and> (pos_le (Start r) (End r) \<longrightarrow>
        rangeContainsPosition r (Start r) \<and> rangeContainsPosition r (End r))"
proof (intro conjI)
  show "rangeContainsPosition r p \<longleftrightarrow> spec_contains r p"
    unfolding spec_contains_def by (rule rangeContainsPosition_lex)
  show "\<not> rangeContainsPosition r p \<longleftrightarrow> pos_less p (Start r) \<or> pos_less (End r) p"
    by (simp add: rangeContainsPosition_lex pos_less_iff_not_le)
  show "pos_le (Start r) (End r) \<longrightarrow>
          rangeContainsPosition r (Start r) \<and> rangeContainsPosition r (End r)"
    by (simp add: rangeContainsPosition_lex pos_le_refl)
qed

theorem rangeContainsPosition_inclusive_lex_witness:
  "pos_le \<lparr>Line = 3, Character = 4\<rparr> \<lparr>Line = 5, Character = 0\<rparr>
   \<and> rangeContainsPosition
        \<lparr>Start = \<lparr>Line = 3, Character = 4\<rparr>, End = \<lparr>Line = 5, Character = 0\<rparr>\<rparr>
        \<lparr>Line = 3, Character = 4\<rparr>
   \<and> rangeContainsPosition
        \<lparr>Start = \<lparr>Line = 3, Character = 4\<rparr>, End = \<lparr>Line = 5, Character = 0\<rparr>\<rparr>
        \<lparr>Line = 5, Character = 0\<rparr>
   \<and> \<not> rangeContainsPosition
        \<lparr>Start = \<lparr>Line = 3, Character = 4\<rparr>, End = \<lparr>Line = 5, Character = 0\<rparr>\<rparr>
        \<lparr>Line = 5, Character = 1\<rparr>"
  using rangeContainsPosition_inclusive_lex
    [of "\<lparr>Start = \<lparr>Line = 3, Character = 4\<rparr>, End = \<lparr>Line = 5, Character = 0\<rparr>\<rparr>"
        "\<lparr>Line = 5, Character = 1\<rparr>"]
  by (simp add: pos_le_def pos_less_def spec_contains_def)

section \<open>Properties of 64-bit arithmetic\<close>

lemma wrap64_ge: "- (2 ^ 63) \<le> wrap64 x"
  unfolding wrap64_def by simp

lemma wrap64_le: "- (2 ^ 63) \<le> x \<Longrightarrow> wrap64 x \<le> x"
proof -
  assume "- (2 ^ 63) \<le> x"
  then have "0 \<le> x + 2 ^ 63" by simp
  then have "(x + 2 ^ 63) mod 2 ^ 64 \<le> x + 2 ^ 63"
    by (rule zmod_le_nonneg_dividend)
  then show ?thesis unfolding wrap64_def by simp
qed

lemma wrap64_id: "- (2 ^ 63) \<le> x \<Longrightarrow> x < 2 ^ 63 \<Longrightarrow> wrap64 x = x"
  unfolding wrap64_def by simp

section \<open>Properties of batch acquisition\<close>

lemma distinct_map_put: "distinct ks \<Longrightarrow> distinct (map_put k ks)"
  by (simp add: map_put_def)

lemma set_map_put: "set (map_put k ks) = insert k (set ks)"
  by (auto simp: map_put_def)

lemma scanLoop_distinct:
  "scanLoop decode oms ignored limit sc filtered n = Inr (filtered', n') \<Longrightarrow>
   distinct filtered \<Longrightarrow> distinct filtered'"
proof (induction sc arbitrary: filtered n)
  case Nil
  then show ?case by simp
next
  case (Cons item rest)
  then show ?case
    by (auto split: if_splits sum.splits simp: distinct_map_put)
qed

lemma deferClose_Inr:
  "deferClose scanner res = Inr v \<Longrightarrow> res = Inr v \<and> scan_closeErr scanner = None"
  by (auto simp: deferClose_def split: option.splits)

text \<open>
  The order in which the keys of the map are collected does not matter: two
  enumerations of the same keys are sorted to the same list.
\<close>

lemma sort_Ints_any_order:
  "distinct ks \<Longrightarrow> distinct ks' \<Longrightarrow> set ks' = set ks \<Longrightarrow> sort_Ints ks' = sort_Ints ks"
  unfolding sort_Ints_def
  by (metis sorted_list_of_set_sort_remdups distinct_remdups_id)

lemma uploadIDsWithReferences_Inr:
  assumes "uploadIDsWithReferences r oms ignoreIDs limit offset
             = Inr (ids, recordsScanned, totalCount)"
  shows "\<exists>scanner filtered.
           dbStore_ReferenceIDsAndFilters r (repositoryID r) (commit r) oms limit offset
             = Inr (scanner, totalCount)
         \<and> scan_closeErr scanner = None
         \<and> scanLoop (bloomfilter_Decode r) oms (ignoreIDsMap ignoreIDs) limit
               (scan_items scanner) [] 0 = Inr (filtered, recordsScanned)
         \<and> ids = sort_Ints filtered"
  using assms
  by (auto simp: uploadIDsWithReferences_def split: sum.splits dest!: deferClose_Inr)

text \<open>
  Claim C10. Whenever \<open>uploadIDsWithReferences\<close> returns without error, the returned
  candidate IDs are in strictly increasing order and hold no ID twice, whatever the
  order in which the scanner yields the records.
\<close>

theorem uploadIDsWithReferences_sorted_distinct:
  assumes "uploadIDsWithReferences r oms ignoreIDs limit offset
             = Inr (ids, recordsScanned, totalCount)"
  shows "sorted_wrt (<) ids \<and> distinct ids"
proof -
  from uploadIDsWithReferences_Inr [OF assms]
  obtain scanner :: PackageReferenceScanner and filtered where
    sl: "scanLoop (bloomfilter_Decode r) oms (ignoreIDsMap ignoreIDs) limit
           (scan_items scanner) [] 0 = Inr (filtered, recordsScanned)"
    and ids: "ids = sort_Ints filtered"
    by blast
  from scanLoop_distinct [OF sl] have "distinct filtered" by simp
  with ids show ?thesis
    by (simp add: sort_Ints_def strict_sorted_iff)
qed

lemma scan_unordered_example:
  "uploadIDsWithReferences
     (scanOf [candidate 7 [3], candidate 5 [4], candidate 3 [3, 9], candidate 7 [3]] 9)
     [fooMoniker] [] 50 0 = Inr ([3, 7], 4, 9)"
  by (simp add: uploadIDsWithReferences_def scanOf_def idleResolver_def fooMoniker_def
      candidate_def toyDecode_def testFilter_def ignoreIDsMap_def map_put_def deferClose_def
      sort_Ints_def)

theorem uploadIDsWithReferences_sorted_distinct_witness:
  "uploadIDsWithReferences
     (scanOf [candidate 7 [3], candidate 5 [4], candidate 3 [3, 9], candidate 7 [3]] 9)
     [fooMoniker] [] 50 0 = Inr ([3, 7], 4, 9)
   \<and> sorted_wrt (<) [3, 7 :: int] \<and> distinct [3, 7 :: int]"
  using uploadIDsWithReferences_sorted_distinct [OF scan_unordered_example]
    scan_unordered_example
  by simp

text \<open>
  The keys of the ignore map are the positions of the slice \<open>ignoreIDs\<close>, not its
  elements.
\<close>

lemma set_foldl_map_put: "set (foldl (\<lambda>m i. map_put i m) acc ks) = set acc \<union> set ks"
  by (induction ks arbitrary: acc) (auto simp: set_map_put)

lemma set_ignoreIDsMap: "set (ignoreIDsMap ignoreIDs) = int ` {0..<length ignoreIDs}"
  by (simp add: ignoreIDsMap_def set_foldl_map_put)

text \<open>
  Claim C1, evaluated on the code. The ignore set is \<open>[42, 17]\<close>. The scanner yields
  index 42 and index 1, both with a bloom filter that tests positive for the moniker
  \<open>foo\<close>. The claim asks for the batch \<open>[1]\<close>; the code returns \<open>[42]\<close>: the ignored
  index 42 is included, and index 1, which is not ignored and tests positive, is left
  out, because the ignore map holds the slice positions \<open>0\<close> and \<open>1\<close> instead of the
  IDs.
\<close>

theorem uploadIDsWithReferences_ignores_positions:
  "uploadIDsWithReferences (scanOf [candidate 42 [3], candidate 1 [3]] 2)
     [fooMoniker] [42, 17] 50 0 = Inr ([42], 2, 2)"
  by (simp add: uploadIDsWithReferences_def scanOf_def idleResolver_def fooMoniker_def
      candidate_def toyDecode_def testFilter_def ignoreIDsMap_def map_put_def deferClose_def
      sort_Ints_def)

section \<open>Properties of upload hydration\<close>

text \<open>
  Claim C2, evaluated on the code. The store returns the record of upload 7 and
  \<open>filterUploadsWithCommits\<close> fails. The claim asks for an error; the code returns no
  uploads and no error, and leaves the cache as it was.
\<close>

theorem uploadsByIDs_swallows_filter_error:
  "uploadsByIDs
     (idleResolver\<lparr>dbStore_GetDumpsByIDs := (\<lambda>ids. Inr (map dumpOf ids)),
                    filterUploadsWithCommits := (\<lambda>ds. Inl (StoreError ''gitserver''))\<rparr>)
     Map.empty [7] = Inr ([], Map.empty)"
  by (simp add: uploadsByIDs_def idleResolver_def)

section \<open>Properties of the local phase\<close>

lemma localLoop_LocalBatchOffset:
  "localLoop r ty us c limit acc = Inr (all', c') \<Longrightarrow> - (2 ^ 63) \<le> LocalBatchOffset c \<Longrightarrow>
   - (2 ^ 63) \<le> LocalBatchOffset c' \<and> LocalBatchOffset c' \<le> LocalBatchOffset c + int (length us)"
proof (induction us arbitrary: c acc)
  case Nil
  then show ?case by simp
next
  case (Cons au rest)
  show ?case
  proof (cases "int (length acc) \<ge> limit")
    case True
    with Cons.prems show ?thesis by simp
  next
    case False
    let ?fn = "if ty = ''implementations'' then lsifStore_Implementations r
               else lsifStore_References r"
    from False Cons.prems(1) obtain locations totalCount where
      call: "?fn (ID (Upload au)) (AdjustedPathInBundle au) (Line (AdjustedPosition au))
               (Character (AdjustedPosition au)) (go_sub limit (int (length acc)))
               (LocalOffset c) = Inr (locations, totalCount)"
      by (auto split: sum.splits if_splits)
    let ?c2 = "if go_add (LocalOffset c) (int (length locations)) \<ge> totalCount
               then c\<lparr>LocalOffset := 0, LocalBatchOffset := go_add (LocalBatchOffset c) 1\<rparr>
               else c\<lparr>LocalOffset := go_add (LocalOffset c) (int (length locations))\<rparr>"
    from False Cons.prems(1) call
    have rec: "localLoop r ty rest ?c2 limit (acc @ locations) = Inr (all', c')"
      by (auto split: if_splits)
    have lo: "- (2 ^ 63) \<le> LocalBatchOffset ?c2"
      using Cons.prems(2) wrap64_ge [of "LocalBatchOffset c + 1"] by (simp add: go_add_def)
    have hi: "LocalBatchOffset ?c2 \<le> LocalBatchOffset c + 1"
      using Cons.prems(2) wrap64_le [of "LocalBatchOffset c + 1"] by (simp add: go_add_def)
    from Cons.IH [OF rec lo] hi show ?thesis by simp
  qed
qed

text \<open>
  Claim C3. Whenever \<open>pageLocalReferences\<close> returns its pair of locations and flag,
  the flag \<open>hasMore\<close> is true exactly when the cursor's \<open>LocalBatchOffset\<close> after the
  call is below the number of adjusted uploads, and false exactly when the two are
  equal.
\<close>

theorem pageLocalReferences_hasMore:
  assumes "pageLocalReferences r ty adjustedUploads cursor limit
             = Inr (locations, hasMore, cursor')"
  shows "(hasMore \<longleftrightarrow> LocalBatchOffset cursor' < int (length adjustedUploads))
       \<and> (\<not> hasMore \<longleftrightarrow> LocalBatchOffset cursor' = int (length adjustedUploads))"
proof -
  from assms have bounds:
    "0 \<le> LocalBatchOffset cursor" "LocalBatchOffset cursor \<le> int (length adjustedUploads)"
    by (auto simp: pageLocalReferences_def split: if_splits)
  from assms bounds have
    loop: "localLoop r ty (drop (nat (LocalBatchOffset cursor)) adjustedUploads) cursor limit []
            = Inr (locations, cursor')"
    and flag: "hasMore = (LocalBatchOffset cursor' < int (length adjustedUploads))"
    by (auto simp: pageLocalReferences_def split: if_splits sum.splits)
  from bounds have "- (2 ^ 63) \<le> LocalBatchOffset cursor" by simp
  from localLoop_LocalBatchOffset [OF loop this] bounds
  have "LocalBatchOffset cursor' \<le> int (length adjustedUploads)" by simp
  with flag show ?thesis by auto
qed

text \<open>
  One upload with three references: a page of ten drains it, a page of two does not.
\<close>

lemma local_page_of_ten:
  "pageLocalReferences threeRefs ''references'' [uploadAt 1 9 4] freshCursor 10
    = Inr ([locationAt 1 1, locationAt 1 2, locationAt 1 3], False,
           freshCursor\<lparr>LocalBatchOffset := 1\<rparr>)"
  by (simp add: pageLocalReferences_def threeRefs_def idleResolver_def pagedStore_def
      freshCursor_def go_add_def go_sub_def wrap64_def)

lemma local_page_of_two:
  "pageLocalReferences threeRefs ''references'' [uploadAt 1 9 4] freshCursor 2
    = Inr ([locationAt 1 1, locationAt 1 2], True, freshCursor\<lparr>LocalOffset := 2\<rparr>)"
  by (simp add: pageLocalReferences_def threeRefs_def idleResolver_def pagedStore_def
      freshCursor_def go_add_def go_sub_def wrap64_def)

theorem pageLocalReferences_hasMore_witness:
  "pageLocalReferences threeRefs ''references'' [uploadAt 1 9 4] freshCursor 10
    = Inr ([locationAt 1 1, locationAt 1 2, locationAt 1 3], False,
           freshCursor\<lparr>LocalBatchOffset := 1\<rparr>)
   \<and> LocalBatchOffset (freshCursor\<lparr>LocalBatchOffset := 1\<rparr>) = int (length [uploadAt 1 9 4])
   \<and> pageLocalReferences threeRefs ''references'' [uploadAt 1 9 4] freshCursor 2
    = Inr ([locationAt 1 1, locationAt 1 2], True, freshCursor\<lparr>LocalOffset := 2\<rparr>)
   \<and> LocalBatchOffset (freshCursor\<lparr>LocalOffset := 2\<rparr>) < int (length [uploadAt 1 9 4])"
  using pageLocalReferences_hasMore [OF local_page_of_ten]
    pageLocalReferences_hasMore [OF local_page_of_two]
    local_page_of_ten local_page_of_two
  by simp

text \<open>
  Pages of two over two uploads with three and two references: the first two of the
  first upload; its last one and the first of the second upload; the last one of the
  second upload, after which the local phase has no more results.
\<close>

lemma local_three_pages:
  "pageLocalReferences twoUploads ''references'' [uploadAt 1 9 4, uploadAt 2 9 4] freshCursor 2
     = Inr ([locationAt 1 1, locationAt 1 2], True, freshCursor\<lparr>LocalOffset := 2\<rparr>)"
  "pageLocalReferences twoUploads ''references'' [uploadAt 1 9 4, uploadAt 2 9 4]
       (freshCursor\<lparr>LocalOffset := 2\<rparr>) 2
     = Inr ([locationAt 1 3, locationAt 2 1], True,
            freshCursor\<lparr>LocalBatchOffset := 1, LocalOffset := 1\<rparr>)"
  "pageLocalReferences twoUploads ''references'' [uploadAt 1 9 4, uploadAt 2 9 4]
       (freshCursor\<lparr>LocalBatchOffset := 1, LocalOffset := 1\<rparr>) 2
     = Inr ([locationAt 2 2], False, freshCursor\<lparr>LocalBatchOffset := 2\<rparr>)"
  by (simp_all add: pageLocalReferences_def twoUploads_def idleResolver_def pagedStore_def
      freshCursor_def uploadAt_def dumpOf_def go_add_def go_sub_def wrap64_def)

section \<open>Properties of the remote phase\<close>

lemma isSourceLocation_iff:
  "isSourceLocation aus l \<longleftrightarrow>
     (\<exists>u\<in>set aus. loc_DumpID l = ID (Upload u) \<and> loc_Path l = AdjustedPath u
        \<and> rangeContainsPosition (loc_Range l) (AdjustedPosition u))"
  by (induction aus) auto

lemma monikerSearch_filtered:
  "case monikerSearch r t aus oms c cache limit of
     Inl err \<Rightarrow> True
   | Inr (locs, rest) \<Rightarrow> \<forall>l\<in>set locs. \<not> isSourceLocation aus l"
  by (auto simp: monikerSearch_def Let_def split: sum.splits prod.splits if_splits)

text \<open>
  The filter holds for whatever the acquisition loop does before the search: by
  induction on the unfolding of the partial function.
\<close>

lemma pageRemoteReferences_allFiltered:
  assumes "pageRemoteReferences r t aus oms defs c cache limit = Some res"
  shows "case res of Inl err \<Rightarrow> True
         | Inr (locs, rest) \<Rightarrow> \<forall>l\<in>set locs. \<not> isSourceLocation aus l"
proof (rule pageRemoteReferences.raw_induct
    [where P = "\<lambda>r t aus oms defs c cache limit res.
       case res of Inl err \<Rightarrow> True
       | Inr (locs, rest) \<Rightarrow> \<forall>l\<in>set locs. \<not> isSourceLocation aus l", OF _ assms],
    goal_cases)
  case (1 pageRemote r t aus oms defs c cache limit res)
  note IH = "1"(1) and unfolded = "1"(2)
  show ?case
  proof (cases "go_len (BatchIDs c) = 0")
    case False
    with unfolded have "res = monikerSearch r t aus oms c cache limit" by simp
    then show ?thesis
      using monikerSearch_filtered [where r = r and t = t and aus = aus and oms = oms
          and c = c and cache = cache and limit = limit] by simp
  next
    case True
    note empty = this
    show ?thesis
    proof (cases "RemoteBatchOffset c < 0")
      case True
      with empty unfolded show ?thesis by auto
    next
      case False
      show ?thesis
      proof (cases "uploadIDsWithReferences r oms defs maximumIndexesPerMonikerSearch
                      (RemoteBatchOffset c)")
        case (Inl err)
        with empty False unfolded show ?thesis by auto
      next
        case (Inr batch)
        obtain ids scanned totalCount where batch: "batch = (ids, scanned, totalCount)"
          by (cases batch) auto
        from empty False Inr batch unfolded
        have "pageRemote r t aus oms defs (advanceRemoteBatch c ids scanned totalCount)
                cache limit = Some res"
          by simp
        then show ?thesis by (rule IH)
      qed
    qed
  qed
qed

text \<open>
  Claim C4. No location returned by \<open>pageRemoteReferences\<close> is a source location:
  for every returned location there is no adjusted upload with the same index ID and
  the same adjusted path whose adjusted position lies in the location's range.
\<close>

theorem pageRemoteReferences_no_source_location:
  assumes "pageRemoteReferences r t aus oms defs c cache limit
             = Some (Inr (locs, hasMore, c', cache'))"
  shows "\<forall>l\<in>set locs.
           \<not> (\<exists>u\<in>set aus. loc_DumpID l = ID (Upload u) \<and> loc_Path l = AdjustedPath u
                  \<and> rangeContainsPosition (loc_Range l) (AdjustedPosition u))"
proof
  fix l
  assume "l \<in> set locs"
  with pageRemoteReferences_allFiltered [OF assms] have "\<not> isSourceLocation aus l"
    by simp
  then show "\<not> (\<exists>u\<in>set aus. loc_DumpID l = ID (Upload u) \<and> loc_Path l = AdjustedPath u
                  \<and> rangeContainsPosition (loc_Range l) (AdjustedPosition u))"
    by (simp add: isSourceLocation_iff)
qed

text \<open>
  The moniker search finds the symbol at the query position in upload 1 (a source
  location) and a reference in upload 2; only the latter is returned.
\<close>

lemma remote_page_example:
  "pageRemoteReferences (remoteResolver [candidate 2 [3]] 1 [locationAt 1 9, locationAt 2 3])
     ''references'' [uploadAt 1 9 4] [fooMoniker] [] freshCursor Map.empty 10
   = Some (Inr ([locationAt 2 3], False, freshCursor\<lparr>RemoteBatchOffset := - 1\<rparr>,
                [2 \<mapsto> dumpOf 2]))"
  apply (subst pageRemoteReferences.simps)
  apply (subst pageRemoteReferences.simps)
  apply (simp add: remoteResolver_def uploadIDsWithReferences_def scanOf_def idleResolver_def
      fooMoniker_def candidate_def toyDecode_def testFilter_def ignoreIDsMap_def map_put_def
      deferClose_def sort_Ints_def freshCursor_def go_len_def go_elems_def
      advanceRemoteBatch_def maximumIndexesPerMonikerSearch_def go_add_def wrap64_def
      monikerSearch_def uploadsByIDs_def dumpOf_def uploadAt_def locationAt_def
      rangeContainsPosition_def)
  done

theorem pageRemoteReferences_no_source_location_witness:
  "pageRemoteReferences (remoteResolver [candidate 2 [3]] 1 [locationAt 1 9, locationAt 2 3])
     ''references'' [uploadAt 1 9 4] [fooMoniker] [] freshCursor Map.empty 10
   = Some (Inr ([locationAt 2 3], False, freshCursor\<lparr>RemoteBatchOffset := - 1\<rparr>,
                [2 \<mapsto> dumpOf 2]))
   \<and> isSourceLocation [uploadAt 1 9 4] (locationAt 1 9)
   \<and> \<not> isSourceLocation [uploadAt 1 9 4] (locationAt 2 3)"
  using pageRemoteReferences_no_source_location [OF remote_page_example] remote_page_example
  by (simp add: isSourceLocation_iff)
     (simp add: uploadAt_def locationAt_def dumpOf_def rangeContainsPosition_def)

lemma scanLoop_count:
  "scanLoop decode oms ignored limit sc filtered n = Inr (filtered', n') \<Longrightarrow>
     n \<le> n' \<and> n' \<le> n + length sc \<and> length filtered \<le> length filtered'
   \<and> length filtered' + n \<le> length filtered + n'
   \<and> (int (length filtered') < limit \<longrightarrow> n' = n + length sc)"
proof (induction sc arbitrary: filtered n)
  case Nil
  then show ?case by simp
next
  case (Cons item rest)
  show ?case
  proof (cases "int (length filtered) < limit")
    case False
    with Cons.prems show ?thesis by simp
  next
    case True
    from True Cons.prems obtain packageReference where item: "item = Inr packageReference"
      by (cases item) auto
    from True Cons.prems item obtain filtered1 where
      rec: "scanLoop decode oms ignored limit rest filtered1 (Suc n) = Inr (filtered', n')"
      and step: "filtered1 = filtered
                 \<or> filtered1 = map_put (ref_DumpID packageReference) filtered"
      by (auto split: if_splits sum.splits)
    from step have len:
      "length filtered \<le> length filtered1" "length filtered1 \<le> Suc (length filtered)"
      by (auto simp: map_put_def)
    from Cons.IH [OF rec] len show ?thesis by auto
  qed
qed

lemma length_sort_Ints: "length (sort_Ints xs) = length xs"
  by (simp add: sort_Ints_def)

lemma advanceRemoteBatch_offset:
  assumes "0 \<le> RemoteBatchOffset cursor" "RemoteBatchOffset cursor + int scanned < 2 ^ 63"
  shows "RemoteBatchOffset (advanceRemoteBatch cursor ids scanned totalCount)
           = (if totalCount \<le> RemoteBatchOffset cursor + int scanned then - 1
              else RemoteBatchOffset cursor + int scanned)"
proof -
  from assms
  have "go_add (RemoteBatchOffset cursor) (int scanned) = RemoteBatchOffset cursor + int scanned"
    unfolding go_add_def by (intro wrap64_id) auto
  then show ?thesis by (simp add: advanceRemoteBatch_def)
qed

text \<open>
  The number of records scanned is pinned down: the IDs returned are those kept after
  exactly that many records, the scan stops short of the scanner's end only on a full
  batch, and no shorter prefix of the scanner fills the batch.
\<close>

lemma scanLoop_exact:
  "scanLoop decode oms ignored limit sc filtered n = Inr (filtered', n') \<Longrightarrow>
   \<exists>k\<le>length sc.
       n' = n + k
     \<and> filtered' = foldl (scanStep decode oms ignored) filtered (take k sc)
     \<and> (k < length sc \<longrightarrow> limit \<le> int (length filtered'))
     \<and> (\<forall>j<k. int (length (foldl (scanStep decode oms ignored) filtered (take j sc))) < limit)"
proof (induction sc arbitrary: filtered n)
  case Nil
  then show ?case by simp
next
  case (Cons item rest)
  let ?step = "scanStep decode oms ignored"
  show ?case
  proof (cases "int (length filtered) < limit")
    case False
    with Cons.prems have "filtered' = filtered" "n' = n" by simp_all
    with False show ?thesis by (intro exI [of _ 0]) simp
  next
    case True
    from True Cons.prems obtain packageReference where item: "item = Inr packageReference"
      by (cases item) auto
    from True Cons.prems item
    have rec: "scanLoop decode oms ignored limit rest (?step filtered item) (Suc n)
                 = Inr (filtered', n')"
      by (auto simp: scanStep_def split: if_splits sum.splits)
    from Cons.IH [OF rec] obtain k where
      k: "k \<le> length rest" "n' = Suc n + k"
         "filtered' = foldl ?step (?step filtered item) (take k rest)"
         "k < length rest \<longrightarrow> limit \<le> int (length filtered')"
         "\<forall>j<k. int (length (foldl ?step (?step filtered item) (take j rest))) < limit"
      by blast
    have early: "\<forall>j<Suc k. int (length (foldl ?step filtered (take j (item # rest)))) < limit"
    proof (intro allI impI)
      fix j
      assume "j < Suc k"
      show "int (length (foldl ?step filtered (take j (item # rest)))) < limit"
      proof (cases j)
        case 0
        with True show ?thesis by simp
      next
        case (Suc j')
        with \<open>j < Suc k\<close> k(5) show ?thesis by simp
      qed
    qed
    from k early show ?thesis
      by (intro exI [of _ "Suc k"]) simp
  qed
qed


lemma uploadIDsWithReferences_scanned:
  assumes "uploadIDsWithReferences r oms ignoreIDs limit offset
             = Inr (ids, scanned, totalCount)"
  shows "\<exists>scanner.
           dbStore_ReferenceIDsAndFilters r (repositoryID r) (commit r) oms limit offset
             = Inr (scanner, totalCount)
         \<and> scanned \<le> length (scan_items scanner)
         \<and> ids = sort_Ints (keptAfter (bloomfilter_Decode r) oms (ignoreIDsMap ignoreIDs)
                               (scan_items scanner) scanned)
         \<and> (scanned < length (scan_items scanner) \<longrightarrow> limit \<le> int (length ids))
         \<and> (\<forall>j < scanned. int (length (keptAfter (bloomfilter_Decode r) oms
                                          (ignoreIDsMap ignoreIDs) (scan_items scanner) j))
                            < limit)"
proof -
  from uploadIDsWithReferences_Inr [OF assms]
  obtain scanner :: PackageReferenceScanner and filtered where
    store: "dbStore_ReferenceIDsAndFilters r (repositoryID r) (commit r) oms limit offset
              = Inr (scanner, totalCount)"
    and sl: "scanLoop (bloomfilter_Decode r) oms (ignoreIDsMap ignoreIDs) limit
               (scan_items scanner) [] 0 = Inr (filtered, scanned)"
    and ids: "ids = sort_Ints filtered"
    by blast
  from scanLoop_exact [OF sl] have
    bound: "scanned \<le> length (scan_items scanner)"
    and kept: "filtered = keptAfter (bloomfilter_Decode r) oms (ignoreIDsMap ignoreIDs)
                            (scan_items scanner) scanned"
    and full: "scanned < length (scan_items scanner) \<longrightarrow> limit \<le> int (length filtered)"
    and early: "\<forall>j < scanned. int (length (keptAfter (bloomfilter_Decode r) oms
                                          (ignoreIDsMap ignoreIDs) (scan_items scanner) j))
                            < limit"
    by (auto simp: keptAfter_def)
  from store bound kept full early ids show ?thesis
    by (intro exI [of _ scanner]) (simp add: length_sort_Ints)
qed

lemma monikerSearch_RemoteBatchOffset:
  "monikerSearch r t aus oms c cache limit = Inr (locs, hasMore, c', cache')
   \<Longrightarrow> RemoteBatchOffset c' = RemoteBatchOffset c"
  by (auto simp: monikerSearch_def Let_def split: sum.splits if_splits)

text \<open>
  Claim C6, as amended. With no batch queued: a negative \<open>RemoteBatchOffset\<close> makes
  \<open>pageRemoteReferences\<close> return no locations and \<open>hasMore = false\<close>. Otherwise,
  after a scan that returns \<open>ids\<close> having read \<open>scanned\<close> records of \<open>totalCount\<close>,
  and provided the offset plus \<open>scanned\<close> stays below \<open>2^63\<close> (Go's \<open>int\<close> does not
  overflow), the call continues from the cursor in which the batch is \<open>ids\<close> and the
  offset has advanced by exactly \<open>scanned\<close>, or is \<open>-1\<close> exactly when the advanced
  offset has reached \<open>totalCount\<close>; when the batch is not empty, that offset is the
  one in the cursor the call returns. The number scanned is the number of records read
  from the scanner, whether or not they matched: the IDs are those kept after exactly
  \<open>scanned\<close> records, the scan stops before the end of the scanner only when the batch
  is full, and no shorter prefix fills the batch.
\<close>

theorem pageRemoteReferences_batch_offset:
  assumes empty: "go_len (BatchIDs cursor) = 0"
  shows "(RemoteBatchOffset cursor < 0 \<longrightarrow>
            pageRemoteReferences r t aus oms defs cursor cache limit
              = Some (Inr ([], False, cursor, cache)))
       \<and> (0 \<le> RemoteBatchOffset cursor
          \<and> uploadIDsWithReferences r oms defs maximumIndexesPerMonikerSearch
                (RemoteBatchOffset cursor) = Inr (ids, scanned, totalCount)
          \<and> RemoteBatchOffset cursor + int scanned < 2 ^ 63 \<longrightarrow>
            pageRemoteReferences r t aus oms defs cursor cache limit
              = pageRemoteReferences r t aus oms defs
                  (advanceRemoteBatch cursor ids scanned totalCount) cache limit
          \<and> BatchIDs (advanceRemoteBatch cursor ids scanned totalCount) = Some ids
          \<and> RemoteBatchOffset (advanceRemoteBatch cursor ids scanned totalCount)
              = (if totalCount \<le> RemoteBatchOffset cursor + int scanned then - 1
                 else RemoteBatchOffset cursor + int scanned)
          \<and> (RemoteBatchOffset (advanceRemoteBatch cursor ids scanned totalCount) = - 1
               \<longleftrightarrow> totalCount \<le> RemoteBatchOffset cursor + int scanned)
          \<and> (ids \<noteq> [] \<longrightarrow>
               (\<forall>locs hasMore c' cache'.
                   pageRemoteReferences r t aus oms defs cursor cache limit
                     = Some (Inr (locs, hasMore, c', cache')) \<longrightarrow>
                   RemoteBatchOffset c'
                     = (if totalCount \<le> RemoteBatchOffset cursor + int scanned then - 1
                        else RemoteBatchOffset cursor + int scanned)))
          \<and> (\<exists>scanner.
                dbStore_ReferenceIDsAndFilters r (repositoryID r) (commit r) oms
                  maximumIndexesPerMonikerSearch (RemoteBatchOffset cursor)
                  = Inr (scanner, totalCount)
              \<and> length ids \<le> scanned \<and> scanned \<le> length (scan_items scanner)
              \<and> ids = sort_Ints (keptAfter (bloomfilter_Decode r) oms (ignoreIDsMap defs)
                                    (scan_items scanner) scanned)
              \<and> (scanned < length (scan_items scanner)
                   \<longrightarrow> maximumIndexesPerMonikerSearch \<le> int (length ids))
              \<and> (\<forall>j < scanned.
                    int (length (keptAfter (bloomfilter_Decode r) oms (ignoreIDsMap defs)
                                   (scan_items scanner) j))
                      < maximumIndexesPerMonikerSearch)))"
  (is "(?exhausted \<longrightarrow> ?stop)
       \<and> (?scan \<longrightarrow> ?cont \<and> ?batch \<and> ?offset \<and> ?sentinel \<and> ?returned \<and> ?count)")
proof (rule conjI)
  show "?exhausted \<longrightarrow> ?stop"
  proof (rule impI)
    assume ?exhausted
    with empty show ?stop
      by (subst pageRemoteReferences.simps) simp
  qed
next
  show "?scan \<longrightarrow> ?cont \<and> ?batch \<and> ?offset \<and> ?sentinel \<and> ?returned \<and> ?count"
  proof (rule impI)
    assume ?scan
    then have nonneg: "0 \<le> RemoteBatchOffset cursor"
      and scan: "uploadIDsWithReferences r oms defs maximumIndexesPerMonikerSearch
                  (RemoteBatchOffset cursor) = Inr (ids, scanned, totalCount)"
      and small: "RemoteBatchOffset cursor + int scanned < 2 ^ 63"
      by simp_all
    from empty nonneg scan have cont: ?cont
      by (subst pageRemoteReferences.simps) simp
    have batch: ?batch
      by (simp add: advanceRemoteBatch_def)
    have off: ?offset
      by (rule advanceRemoteBatch_offset [OF nonneg small])
    from off nonneg have sentinel: ?sentinel
      by auto
    from uploadIDsWithReferences_Inr [OF scan]
    obtain scanner0 :: PackageReferenceScanner and filtered where
      sl: "scanLoop (bloomfilter_Decode r) oms (ignoreIDsMap defs)
                 maximumIndexesPerMonikerSearch (scan_items scanner0) [] 0
               = Inr (filtered, scanned)"
      and ids: "ids = sort_Ints filtered"
      by blast
    from scanLoop_count [OF sl] ids have kept: "length ids \<le> scanned"
      by (simp add: length_sort_Ints)
    from uploadIDsWithReferences_scanned [OF scan] kept have count: ?count
      by blast
    have returned: ?returned
    proof (intro impI allI)
      fix locs hasMore c' cache'
      assume nonempty: "ids \<noteq> []"
        and result: "pageRemoteReferences r t aus oms defs cursor cache limit
                       = Some (Inr (locs, hasMore, c', cache'))"
      from nonempty
      have "go_len (BatchIDs (advanceRemoteBatch cursor ids scanned totalCount)) \<noteq> 0"
        by (simp add: advanceRemoteBatch_def go_len_def go_elems_def)
      then have "pageRemoteReferences r t aus oms defs
                   (advanceRemoteBatch cursor ids scanned totalCount) cache limit
                 = Some (monikerSearch r t aus oms
                           (advanceRemoteBatch cursor ids scanned totalCount) cache limit)"
        by (subst pageRemoteReferences.simps) simp
      with cont result
      have "monikerSearch r t aus oms (advanceRemoteBatch cursor ids scanned totalCount)
              cache limit = Inr (locs, hasMore, c', cache')"
        by simp
      from monikerSearch_RemoteBatchOffset [OF this] off
      show "RemoteBatchOffset c'
              = (if totalCount \<le> RemoteBatchOffset cursor + int scanned then - 1
                 else RemoteBatchOffset cursor + int scanned)"
        by simp
    qed
    from cont batch off sentinel returned count
    show "?cont \<and> ?batch \<and> ?offset \<and> ?sentinel \<and> ?returned \<and> ?count"
      by (intro conjI)
  qed
qed

text \<open>
  Two records are scanned and one is kept: the offset advances by two; with a total
  of two it becomes \<open>-1\<close>, and the next call returns nothing.
\<close>

lemma scan_two_keep_one:
  "uploadIDsWithReferences (scanOf [candidate 2 [3], candidate 3 [4]] totalCount) [fooMoniker] []
     maximumIndexesPerMonikerSearch (RemoteBatchOffset freshCursor) = Inr ([2], 2, totalCount)"
  by (simp add: uploadIDsWithReferences_def scanOf_def idleResolver_def fooMoniker_def
      candidate_def toyDecode_def testFilter_def ignoreIDsMap_def map_put_def deferClose_def
      sort_Ints_def maximumIndexesPerMonikerSearch_def)

theorem pageRemoteReferences_batch_offset_witness:
  "go_len (BatchIDs freshCursor) = 0
   \<and> uploadIDsWithReferences (scanOf [candidate 2 [3], candidate 3 [4]] 5) [fooMoniker] []
        maximumIndexesPerMonikerSearch (RemoteBatchOffset freshCursor) = Inr ([2], 2, 5)
   \<and> RemoteBatchOffset (advanceRemoteBatch freshCursor [2] 2 5) = 2
   \<and> RemoteBatchOffset (advanceRemoteBatch freshCursor [2] 2 2) = - 1
   \<and> pageRemoteReferences idleResolver ''references'' [] [fooMoniker] []
        (freshCursor\<lparr>RemoteBatchOffset := - 1\<rparr>) Map.empty 10
      = Some (Inr ([], False, freshCursor\<lparr>RemoteBatchOffset := - 1\<rparr>, Map.empty))"
proof -
  have e: "go_len (BatchIDs freshCursor) = 0"
    and e': "go_len (BatchIDs (freshCursor\<lparr>RemoteBatchOffset := - 1\<rparr>)) = 0"
    by (simp_all add: go_len_def go_elems_def freshCursor_def)
  have z: "RemoteBatchOffset freshCursor = 0"
    by (simp add: freshCursor_def)
  from pageRemoteReferences_batch_offset
         [OF e, where r = "scanOf [candidate 2 [3], candidate 3 [4]] 5" and oms = "[fooMoniker]"
            and defs = "[]" and ids = "[2]" and scanned = 2 and totalCount = 5]
       scan_two_keep_one [of 5] z
  have five: "RemoteBatchOffset (advanceRemoteBatch freshCursor [2] 2 5) = 2"
    by simp
  from pageRemoteReferences_batch_offset
         [OF e, where r = "scanOf [candidate 2 [3], candidate 3 [4]] 2" and oms = "[fooMoniker]"
            and defs = "[]" and ids = "[2]" and scanned = 2 and totalCount = 2]
       scan_two_keep_one [of 2] z
  have two: "RemoteBatchOffset (advanceRemoteBatch freshCursor [2] 2 2) = - 1"
    by simp
  from pageRemoteReferences_batch_offset
         [OF e', where r = idleResolver and t = "''references''" and aus = "[]"
            and oms = "[fooMoniker]" and defs = "[]" and cache = Map.empty and limit = 10]
  have stop: "pageRemoteReferences idleResolver ''references'' [] [fooMoniker] []
        (freshCursor\<lparr>RemoteBatchOffset := - 1\<rparr>) Map.empty 10
      = Some (Inr ([], False, freshCursor\<lparr>RemoteBatchOffset := - 1\<rparr>, Map.empty))"
    by simp
  from e scan_two_keep_one [of 5] five two stop show ?thesis by simp
qed

text \<open>With a batch size of one the scan stops after the first record kept.\<close>

lemma scan_stops_at_full_batch:
  "uploadIDsWithReferences (scanOf [candidate 2 [3], candidate 3 [3]] 2) [fooMoniker] [] 1 0
     = Inr ([2], 1, 2)"
  by (simp add: uploadIDsWithReferences_def scanOf_def idleResolver_def fooMoniker_def
      candidate_def toyDecode_def testFilter_def ignoreIDsMap_def map_put_def deferClose_def
      sort_Ints_def)

text \<open>
  The claim as stated, without the bound, fails: at offset \<open>2^63 - 1\<close> one record is
  scanned of a total of five; the cumulative count has reached the total, yet the
  offset is neither advanced by one nor set to \<open>-1\<close>: Go's addition wraps around and
  the cursor holds \<open>-2^63\<close>.
\<close>

lemma overflow_scan:
  "uploadIDsWithReferences (remoteResolver [candidate 2 [3]] 5 [locationAt 2 3]) [fooMoniker] []
     maximumIndexesPerMonikerSearch (2 ^ 63 - 1) = Inr ([2], 1, 5)"
  by (simp add: remoteResolver_def uploadIDsWithReferences_def scanOf_def idleResolver_def
      fooMoniker_def candidate_def toyDecode_def testFilter_def ignoreIDsMap_def map_put_def
      deferClose_def sort_Ints_def maximumIndexesPerMonikerSearch_def)

theorem pageRemoteReferences_batch_offset_counterexample:
  "go_len (BatchIDs (freshCursor\<lparr>RemoteBatchOffset := 2 ^ 63 - 1\<rparr>)) = 0
   \<and> uploadIDsWithReferences (remoteResolver [candidate 2 [3]] 5 [locationAt 2 3])
        [fooMoniker] [] maximumIndexesPerMonikerSearch (2 ^ 63 - 1) = Inr ([2], 1, 5)
   \<and> pageRemoteReferences (remoteResolver [candidate 2 [3]] 5 [locationAt 2 3])
        ''references'' [] [fooMoniker] [] (freshCursor\<lparr>RemoteBatchOffset := 2 ^ 63 - 1\<rparr>)
        Map.empty 10
      = Some (Inr ([locationAt 2 3], False, freshCursor\<lparr>RemoteBatchOffset := - (2 ^ 63)\<rparr>,
                   [2 \<mapsto> dumpOf 2]))
   \<and> - (2 ^ 63) \<noteq> (2 ^ 63 - 1 + 1 :: int)
   \<and> - (2 ^ 63) \<noteq> (- 1 :: int)
   \<and> (5 :: int) \<le> 2 ^ 63 - 1 + 1"
proof -
  have page: "pageRemoteReferences (remoteResolver [candidate 2 [3]] 5 [locationAt 2 3])
        ''references'' [] [fooMoniker] [] (freshCursor\<lparr>RemoteBatchOffset := 2 ^ 63 - 1\<rparr>)
        Map.empty 10
      = Some (Inr ([locationAt 2 3], False, freshCursor\<lparr>RemoteBatchOffset := - (2 ^ 63)\<rparr>,
                   [2 \<mapsto> dumpOf 2]))"
    apply (subst pageRemoteReferences.simps)
    apply (subst pageRemoteReferences.simps)
    apply (simp add: remoteResolver_def uploadIDsWithReferences_def scanOf_def idleResolver_def
        fooMoniker_def candidate_def toyDecode_def testFilter_def ignoreIDsMap_def map_put_def
        deferClose_def sort_Ints_def freshCursor_def go_len_def go_elems_def
        advanceRemoteBatch_def maximumIndexesPerMonikerSearch_def go_add_def wrap64_def
        monikerSearch_def uploadsByIDs_def dumpOf_def locationAt_def)
    done
  have e: "go_len (BatchIDs (freshCursor\<lparr>RemoteBatchOffset := 2 ^ 63 - 1\<rparr>)) = 0"
    by (simp add: go_len_def go_elems_def freshCursor_def)
  from e overflow_scan page show ?thesis by simp
qed

section \<open>Properties of a resumed request\<close>

lemma hydrateFromCursor_eq:
  "hydrateFromCursor cache cached acc =
     (if \<exists>u\<in>set cached. cache (cau_DumpID u) = None then Inl ErrConcurrentModification
      else Inr (acc @ map (fromCursorAdjustedUpload cache) cached))"
  by (induction cached arbitrary: acc) (auto simp: fromCursorAdjustedUpload_def split: option.splits)

lemma adjustedUploadsFromCursor_resumed:
  "adjustedUploadsFromCursor r cache line character (Some cached) =
     (if \<exists>u\<in>set cached. cache (cau_DumpID u) = None then Inl ErrConcurrentModification
      else Inr (map (fromCursorAdjustedUpload cache) cached, Some cached))"
  by (simp add: adjustedUploadsFromCursor_def hydrateFromCursor_eq)

text \<open>
  Claim C5. On a cursor that carries cached adjusted uploads, \<open>adjustedUploadsFromCursor\<close>
  fails with \<open>ErrConcurrentModification\<close> when some cached index ID is missing from
  the upload cache, and otherwise returns the uploads rebuilt from the cursor entries
  and the cache; the result is the same for every resolver, line and character, so no
  store is consulted; and a page request whose decoded cursor has such a missing index
  fails with \<open>ErrConcurrentModification\<close>, returning no locations.
\<close>

theorem resumed_request_concurrent_modification:
  "(adjustedUploadsFromCursor r cache line character (Some cached) =
     (if \<exists>u\<in>set cached. cache (cau_DumpID u) = None then Inl ErrConcurrentModification
      else Inr (map (fromCursorAdjustedUpload cache) cached, Some cached)))
   \<and> adjustedUploadsFromCursor r' cache line' character' (Some cached)
       = adjustedUploadsFromCursor r cache line character (Some cached)
   \<and> (decodeCursor r raw = Inr cursor \<and> AdjustedUploads cursor = Some cached
        \<and> (\<exists>u\<in>set cached. cache (cau_DumpID u) = None)
      \<longrightarrow> References r cache line character limit raw = Some (Inl ErrConcurrentModification))"
  (is "?rebuilt \<and> ?independent \<and> (?stale \<longrightarrow> ?fails)")
proof (intro conjI impI)
  show ?rebuilt
    by (rule adjustedUploadsFromCursor_resumed)
  show ?independent
    by (simp only: adjustedUploadsFromCursor_resumed)
  assume ?stale
  then have "adjustedUploadsFromCursor r cache line character (AdjustedUploads cursor)
               = Inl ErrConcurrentModification"
    by (simp add: adjustedUploadsFromCursor_resumed)
  with \<open>?stale\<close> show ?fails
    by (simp add: References_def)
qed

theorem resumed_request_concurrent_modification_witness:
  "adjustedUploadsFromCursor resumedResolver [1 \<mapsto> dumpOf 1] 10 4
       (Some [toCursorAdjustedUpload (uploadAt 1 9 4)])
     = Inr ([uploadAt 1 9 4], Some [toCursorAdjustedUpload (uploadAt 1 9 4)])
   \<and> adjustedUploadsFromCursor resumedResolver Map.empty 10 4
       (Some [toCursorAdjustedUpload (uploadAt 1 9 4)])
     = Inl ErrConcurrentModification
   \<and> References resumedResolver Map.empty 10 4 10 ''token''
     = Some (Inl ErrConcurrentModification)"
proof -
  let ?cached = "[toCursorAdjustedUpload (uploadAt 1 9 4)]"
  let ?cursor = "freshCursor\<lparr>AdjustedUploads := Some ?cached\<rparr>"
  have dec: "decodeCursor resumedResolver ''token'' = Inr ?cursor"
    by (simp add: resumedResolver_def threeRefs_def idleResolver_def)
  have au: "AdjustedUploads ?cursor = Some ?cached"
    by simp
  have id1: "cau_DumpID (toCursorAdjustedUpload (uploadAt 1 9 4)) = 1"
    by (simp add: toCursorAdjustedUpload_def uploadAt_def dumpOf_def)
  have rebuilt: "fromCursorAdjustedUpload [1 \<mapsto> dumpOf 1]
                   (toCursorAdjustedUpload (uploadAt 1 9 4)) = uploadAt 1 9 4"
    by (simp add: fromCursorAdjustedUpload_def toCursorAdjustedUpload_def uploadAt_def
        dumpOf_def)
  note present = resumed_request_concurrent_modification
    [where r = resumedResolver and r' = idleResolver and cache = "[1 \<mapsto> dumpOf 1]"
       and line = 10 and character = 4 and line' = 0 and character' = 0
       and cached = ?cached and raw = "''token''" and limit = 10 and cursor = ?cursor]
  note missing = resumed_request_concurrent_modification
    [where r = resumedResolver and r' = idleResolver and cache = Map.empty
       and line = 10 and character = 4 and line' = 0 and character' = 0
       and cached = ?cached and raw = "''token''" and limit = 10 and cursor = ?cursor]
  from present id1 rebuilt
  have A: "adjustedUploadsFromCursor resumedResolver [1 \<mapsto> dumpOf 1] 10 4 (Some ?cached)
             = Inr ([uploadAt 1 9 4], Some ?cached)"
    by simp
  from missing
  have B: "adjustedUploadsFromCursor resumedResolver Map.empty 10 4 (Some ?cached)
             = Inl ErrConcurrentModification"
    by simp
  from missing dec au
  have C: "References resumedResolver Map.empty 10 4 10 ''token''
             = Some (Inl ErrConcurrentModification)"
    by simp
  from A B C show ?thesis by simp
qed

section \<open>Properties of the phase order\<close>

lemma localLoop_Phase:
  "localLoop r ty us c limit acc = Inr (all', c') \<Longrightarrow> Phase c' = Phase c"
proof (induction us arbitrary: c acc)
  case Nil
  then show ?case by simp
next
  case (Cons au rest)
  show ?case
  proof (cases "int (length acc) \<ge> limit")
    case True
    with Cons.prems show ?thesis by simp
  next
    case False
    with Cons.prems obtain c1 acc1 where
      rec: "localLoop r ty rest c1 limit acc1 = Inr (all', c')" and ph: "Phase c1 = Phase c"
      by (auto split: sum.splits if_splits)
    from Cons.IH [OF rec] ph show ?thesis by simp
  qed
qed

lemma pageLocalReferences_Phase:
  "pageLocalReferences r ty aus c limit = Inr (locs, hasMore, c') \<Longrightarrow> Phase c' = Phase c"
  by (auto simp: pageLocalReferences_def split: if_splits sum.splits dest: localLoop_Phase)

lemma monikerSearch_Phase:
  "monikerSearch r t aus oms c cache limit = Inr (locs, hasMore, c', cache') \<Longrightarrow> Phase c' = Phase c"
  by (auto simp: monikerSearch_def Let_def split: sum.splits if_splits)

lemma Phase_advanceRemoteBatch: "Phase (advanceRemoteBatch c ids scanned totalCount) = Phase c"
  by (simp add: advanceRemoteBatch_def)

lemma pageRemoteReferences_Phase_aux:
  assumes "pageRemoteReferences r t aus oms defs c cache limit = Some res"
  shows "case res of Inl err \<Rightarrow> True | Inr (locs, hasMore, c', cache') \<Rightarrow> Phase c' = Phase c"
proof (rule pageRemoteReferences.raw_induct
    [where P = "\<lambda>r t aus oms defs c cache limit res.
       case res of Inl err \<Rightarrow> True | Inr (locs, hasMore, c', cache') \<Rightarrow> Phase c' = Phase c",
     OF _ assms], goal_cases)
  case (1 pageRemote r t aus oms defs c cache limit res)
  note IH = "1"(1) and unfolded = "1"(2)
  show ?case
  proof (cases "go_len (BatchIDs c) = 0")
    case False
    with unfolded have "res = monikerSearch r t aus oms c cache limit" by simp
    then show ?thesis
      by (auto split: sum.splits dest: monikerSearch_Phase)
  next
    case True
    note empty = this
    show ?thesis
    proof (cases "RemoteBatchOffset c < 0")
      case True
      with empty unfolded show ?thesis by auto
    next
      case False
      show ?thesis
      proof (cases "uploadIDsWithReferences r oms defs maximumIndexesPerMonikerSearch
                      (RemoteBatchOffset c)")
        case (Inl err)
        with empty False unfolded show ?thesis by auto
      next
        case (Inr batch)
        obtain ids scanned totalCount where batch: "batch = (ids, scanned, totalCount)"
          by (cases batch) auto
        from empty False Inr batch unfolded
        have "pageRemote r t aus oms defs (advanceRemoteBatch c ids scanned totalCount)
                cache limit = Some res"
          by simp
        from IH [OF this] show ?thesis
          by (auto split: sum.splits simp: Phase_advanceRemoteBatch)
      qed
    qed
  qed
qed

lemma pageRemoteReferences_Phase:
  "pageRemoteReferences r t aus oms defs c cache limit = Some (Inr (locs, hasMore, c', cache'))
   \<Longrightarrow> Phase c' = Phase c"
  using pageRemoteReferences_Phase_aux [of r t aus oms defs c cache limit "Inr (locs, hasMore, c', cache')"]
  by simp



text \<open>
  A run of the remote loop that returns either stopped on a full page, at a loop-head
  state reached through rounds that all reported more results, or requested a remote
  page at such a state, was told there are no more results, and marked the cursor
  \<open>done\<close>.
\<close>

lemma remoteRounds_Suc:
  assumes "int (length locs) < limit"
    and "pageRemoteReferences r ''references'' aus (go_elems (OrderedMonikers c)) defs c cache
           (go_sub limit (int (length locs))) = Some (Inr (rl, True, c1, k1))"
  shows "remoteRounds r aus defs limit (Suc n) (c, cache, locs)
           = remoteRounds r aus defs limit n (c1, k1, locs @ rl)"
  using assms by simp

lemma remoteRounds_Phase:
  "remoteRounds r aus defs limit n (c, cache, locs) = Some (c', cache', locs')
   \<Longrightarrow> Phase c' = Phase c"
proof (induction n arbitrary: c cache locs)
  case 0
  then show ?case by simp
next
  case (Suc n)
  from Suc.prems obtain rl c1 k1 where
    page: "pageRemoteReferences r ''references'' aus (go_elems (OrderedMonikers c)) defs c cache
           (go_sub limit (int (length locs))) = Some (Inr (rl, True, c1, k1))"
    and rest: "remoteRounds r aus defs limit n (c1, k1, locs @ rl) = Some (c', cache', locs')"
    by (auto split: if_splits option.splits sum.splits bool.splits)
  from Suc.IH [OF rest] pageRemoteReferences_Phase [OF page] show ?case by simp
qed

lemma References_remoteLoop_run:
  assumes "References_remoteLoop r aus defs limit c cache locs = Some res"
  shows "case res of
           Inl err \<Rightarrow> True
         | Inr (locs', c', cache') \<Rightarrow>
             (\<exists>n. remoteRounds r aus defs limit n (c, cache, locs) = Some (c', cache', locs')
                  \<and> \<not> int (length locs') < limit)
           \<or> (\<exists>n cR kR lsR rl c2.
                  remoteRounds r aus defs limit n (c, cache, locs) = Some (cR, kR, lsR)
                \<and> int (length lsR) < limit
                \<and> pageRemoteReferences r ''references'' aus (go_elems (OrderedMonikers cR))
                     defs cR kR (go_sub limit (int (length lsR)))
                     = Some (Inr (rl, False, c2, cache'))
                \<and> c' = c2\<lparr>Phase := ''done''\<rparr> \<and> locs' = lsR @ rl)"
proof (rule References_remoteLoop.raw_induct
    [where P = "\<lambda>r aus defs limit c cache locs res.
       case res of
           Inl err \<Rightarrow> True
         | Inr (locs', c', cache') \<Rightarrow>
             (\<exists>n. remoteRounds r aus defs limit n (c, cache, locs) = Some (c', cache', locs')
                  \<and> \<not> int (length locs') < limit)
           \<or> (\<exists>n cR kR lsR rl c2.
                  remoteRounds r aus defs limit n (c, cache, locs) = Some (cR, kR, lsR)
                \<and> int (length lsR) < limit
                \<and> pageRemoteReferences r ''references'' aus (go_elems (OrderedMonikers cR))
                     defs cR kR (go_sub limit (int (length lsR)))
                     = Some (Inr (rl, False, c2, cache'))
                \<and> c' = c2\<lparr>Phase := ''done''\<rparr> \<and> locs' = lsR @ rl)",
     OF _ assms], goal_cases)
  case (1 remoteLoop r aus defs limit c cache locs res)
  note IH = "1"(1) and unfolded = "1"(2)
  show ?case
  proof (cases "int (length locs) < limit")
    case False
    with unfolded have res: "res = Inr (locs, c, cache)" by simp
    have "remoteRounds r aus defs limit 0 (c, cache, locs) = Some (c, cache, locs)" by simp
    with False have "\<exists>n. remoteRounds r aus defs limit n (c, cache, locs) = Some (c, cache, locs)
                  \<and> \<not> int (length locs) < limit"
      by blast
    with res show ?thesis by simp
  next
    case True
    with unfolded obtain page where
      page: "pageRemoteReferences r ''references'' aus (go_elems (OrderedMonikers c)) defs c cache
               (go_sub limit (int (length locs))) = Some page"
      and cont: "(case page of
             Inl err \<Rightarrow> Some (Inl err)
           | Inr (remoteLocations, hasMore, cursor', cache') \<Rightarrow>
               if \<not> hasMore then
                 Some (Inr (locs @ remoteLocations, cursor'\<lparr>Phase := ''done''\<rparr>, cache'))
               else
                 remoteLoop r aus defs limit cursor' cache' (locs @ remoteLocations)) = Some res"
      by (auto simp: bind_eq_Some_conv)
    show ?thesis
    proof (cases page)
      case (Inl err)
      with cont show ?thesis by auto
    next
      case (Inr tuple)
      obtain rl hasMore c1 k1 where tuple: "tuple = (rl, hasMore, c1, k1)"
        by (cases tuple) auto
      show ?thesis
      proof (cases hasMore)
        case False
        with cont Inr tuple have res: "res = Inr (locs @ rl, c1\<lparr>Phase := ''done''\<rparr>, k1)"
          by simp
        from page Inr tuple False
        have call: "pageRemoteReferences r ''references'' aus (go_elems (OrderedMonikers c))
               defs c cache (go_sub limit (int (length locs))) = Some (Inr (rl, False, c1, k1))"
          by simp
        have start: "remoteRounds r aus defs limit 0 (c, cache, locs) = Some (c, cache, locs)"
          by simp
        from start True call
        have "\<exists>n cR kR lsR rl' c2.
                  remoteRounds r aus defs limit n (c, cache, locs) = Some (cR, kR, lsR)
                \<and> int (length lsR) < limit
                \<and> pageRemoteReferences r ''references'' aus (go_elems (OrderedMonikers cR))
                     defs cR kR (go_sub limit (int (length lsR)))
                     = Some (Inr (rl', False, c2, k1))
                \<and> c1\<lparr>Phase := ''done''\<rparr> = c2\<lparr>Phase := ''done''\<rparr> \<and> locs @ rl = lsR @ rl'"
          by blast
        with res show ?thesis by simp
      next
        case hm: True
        with cont Inr tuple
        have loop: "remoteLoop r aus defs limit c1 k1 (locs @ rl) = Some res" by simp
        from page Inr tuple hm
        have call: "pageRemoteReferences r ''references'' aus (go_elems (OrderedMonikers c))
               defs c cache (go_sub limit (int (length locs))) = Some (Inr (rl, True, c1, k1))"
          by simp
        have shift: "remoteRounds r aus defs limit (Suc n) (c, cache, locs)
                       = remoteRounds r aus defs limit n (c1, k1, locs @ rl)" for n
          by (rule remoteRounds_Suc [OF True call])
        show ?thesis
        proof (cases res)
          case (Inl err)
          then show ?thesis by simp
        next
          case (Inr out)
          obtain locs' c' cache' where out: "out = (locs', c', cache')"
            by (cases out) auto
          from IH [OF loop] Inr out
          consider (full) n where
              "remoteRounds r aus defs limit n (c1, k1, locs @ rl) = Some (c', cache', locs')"
              "\<not> int (length locs') < limit"
            | (marked) n cR kR lsR rl' c2 where
              "remoteRounds r aus defs limit n (c1, k1, locs @ rl) = Some (cR, kR, lsR)"
              "int (length lsR) < limit"
              "pageRemoteReferences r ''references'' aus (go_elems (OrderedMonikers cR))
                     defs cR kR (go_sub limit (int (length lsR)))
                     = Some (Inr (rl', False, c2, cache'))"
              "c' = c2\<lparr>Phase := ''done''\<rparr>" "locs' = lsR @ rl'"
            by auto
          then show ?thesis
          proof cases
            case full
            from full(1) have "remoteRounds r aus defs limit (Suc n) (c, cache, locs)
                                 = Some (c', cache', locs')"
              by (simp only: shift)
            with full(2) have "\<exists>n. remoteRounds r aus defs limit n (c, cache, locs)
                                   = Some (c', cache', locs')
                  \<and> \<not> int (length locs') < limit"
              by blast
            with Inr out show ?thesis by simp
          next
            case marked
            from marked(1) have "remoteRounds r aus defs limit (Suc n) (c, cache, locs)
                                 = Some (cR, kR, lsR)"
              by (simp only: shift)
            with marked(2-5) have "\<exists>n cR kR lsR rl c2.
                  remoteRounds r aus defs limit n (c, cache, locs) = Some (cR, kR, lsR)
                \<and> int (length lsR) < limit
                \<and> pageRemoteReferences r ''references'' aus (go_elems (OrderedMonikers cR))
                     defs cR kR (go_sub limit (int (length lsR)))
                     = Some (Inr (rl, False, c2, cache'))
                \<and> c' = c2\<lparr>Phase := ''done''\<rparr> \<and> locs' = lsR @ rl"
              by blast
            with Inr out show ?thesis by simp
          qed
        qed
      qed
    qed
  qed
qed


lemma References_local_Phase:
  assumes "References_local r aus c limit = Inr (locs, c')"
  shows "(Phase c \<noteq> ''local'' \<and> c' = c)
       \<or> (Phase c = ''local''
          \<and> (\<exists>hasMore c1. pageLocalReferences r ''references'' aus c (go_sub limit 0)
                               = Inr (locs, hasMore, c1)
                \<and> Phase c1 = ''local''
                \<and> c' = (if \<not> hasMore then c1\<lparr>Phase := ''remote''\<rparr> else c1)))"
proof (cases "Phase c = ''local''")
  case False
  with assms show ?thesis by (simp add: References_local_def)
next
  case True
  with assms obtain hasMore c1 where
    page: "pageLocalReferences r ''references'' aus c (go_sub limit 0) = Inr (locs, hasMore, c1)"
    and c': "c' = (if \<not> hasMore then c1\<lparr>Phase := ''remote''\<rparr> else c1)"
    by (auto simp: References_local_def split: sum.splits)
  from pageLocalReferences_Phase [OF page] True have "Phase c1 = ''local''" by simp
  with True page c' show ?thesis by blast
qed

lemma References_search_Phase:
  assumes "References_search r aus defs limit c cache = Some (Inr (locs, c', cache'))"
  shows "phase_advance (Phase c) (Phase c')
    \<and> (Phase c = ''local'' \<and> Phase c' \<noteq> ''local'' \<longrightarrow>
         (\<exists>ls c1. pageLocalReferences r ''references'' aus c (go_sub limit 0)
                    = Inr (ls, False, c1)))
    \<and> (Phase c \<noteq> ''done'' \<and> Phase c' = ''done'' \<longrightarrow>
         (\<exists>ls0 cl n cR kR lsR rl c2.
             References_local r aus c limit = Inr (ls0, cl) \<and> Phase cl = ''remote''
           \<and> remoteRounds r aus defs limit n (cl, cache, ls0) = Some (cR, kR, lsR)
           \<and> Phase cR = ''remote'' \<and> int (length lsR) < limit
           \<and> pageRemoteReferences r ''references'' aus (go_elems (OrderedMonikers cR))
                defs cR kR (go_sub limit (int (length lsR)))
                = Some (Inr (rl, False, c2, cache'))
           \<and> c' = c2\<lparr>Phase := ''done''\<rparr> \<and> locs = lsR @ rl))"
proof -
  let ?localDone = "\<exists>ls c1. pageLocalReferences r ''references'' aus c (go_sub limit 0)
                    = Inr (ls, False, c1)"
  let ?remoteDone = "\<exists>ls0 cl n cR kR lsR rl c2.
             References_local r aus c limit = Inr (ls0, cl) \<and> Phase cl = ''remote''
           \<and> remoteRounds r aus defs limit n (cl, cache, ls0) = Some (cR, kR, lsR)
           \<and> Phase cR = ''remote'' \<and> int (length lsR) < limit
           \<and> pageRemoteReferences r ''references'' aus (go_elems (OrderedMonikers cR))
                defs cR kR (go_sub limit (int (length lsR)))
                = Some (Inr (rl, False, c2, cache'))
           \<and> c' = c2\<lparr>Phase := ''done''\<rparr> \<and> locs = lsR @ rl"
  from assms obtain ls cl where
    loc: "References_local r aus c limit = Inr (ls, cl)"
    and rest: "(if Phase cl = ''remote''
                then References_remoteLoop r aus defs limit cl cache ls
                else Some (Inr (ls, cl, cache))) = Some (Inr (locs, c', cache'))"
    by (auto simp: References_search_def split: sum.splits)
  from References_local_Phase [OF loc]
  have l: "(Phase c \<noteq> ''local'' \<and> cl = c)
         \<or> (Phase c = ''local'' \<and> Phase cl = ''local'')
         \<or> (Phase c = ''local'' \<and> Phase cl = ''remote'' \<and> ?localDone)"
    by (auto split: if_splits)
  show ?thesis
  proof (cases "Phase cl = ''remote''")
    case False
    with rest have same: "c' = cl" by simp
    from l same False show ?thesis
      by (auto simp: phase_advance_def)
  next
    case True
    with rest have loop: "References_remoteLoop r aus defs limit cl cache ls
                            = Some (Inr (locs, c', cache'))" by simp
    from l True have from_local:
      "(Phase c = ''remote'') \<or> (Phase c = ''local'' \<and> ?localDone)"
      by auto
    from References_remoteLoop_run [OF loop]
    consider (full) n where
        "remoteRounds r aus defs limit n (cl, cache, ls) = Some (c', cache', locs)"
      | (marked) n cR kR lsR rl c2 where
        "remoteRounds r aus defs limit n (cl, cache, ls) = Some (cR, kR, lsR)"
        "int (length lsR) < limit"
        "pageRemoteReferences r ''references'' aus (go_elems (OrderedMonikers cR))
                defs cR kR (go_sub limit (int (length lsR)))
                = Some (Inr (rl, False, c2, cache'))"
        "c' = c2\<lparr>Phase := ''done''\<rparr>" "locs = lsR @ rl"
      by auto
    then have r: "Phase c' = ''remote'' \<or> (Phase c' = ''done'' \<and> ?remoteDone)"
    proof cases
      case full
      from remoteRounds_Phase [OF full] True show ?thesis by simp
    next
      case marked
      from remoteRounds_Phase [OF marked(1)] True have "Phase cR = ''remote''" by simp
      with loc True marked have ?remoteDone by blast
      with marked(4) show ?thesis by simp
    qed
    from r have r': "Phase c' = ''remote'' \<or> Phase c' = ''done''" by auto
    from from_local have l': "Phase c = ''remote'' \<or> Phase c = ''local''" by auto
    have adv: "phase_advance (Phase c) (Phase c')"
      using r' l' unfolding phase_advance_def by auto
    have a: "Phase c = ''local'' \<and> Phase c' \<noteq> ''local'' \<longrightarrow> ?localDone"
      using from_local by auto
    have b: "Phase c \<noteq> ''done'' \<and> Phase c' = ''done'' \<longrightarrow> ?remoteDone"
      using r by auto
    from adv a b show ?thesis by blast
  qed
qed

lemma Phase_definitionUploadIDsFromCursor:
  "definitionUploadIDsFromCursor r aus oms c = Inr (ids, c') \<Longrightarrow> Phase c' = Phase c"
  by (auto simp: definitionUploadIDsFromCursor_def Let_def split: option.splits sum.splits)

lemma References_Inr:
  assumes dec: "decodeCursor r raw = Inr c0"
    and res: "References r cache line character limit raw = Some (Inr (als, tok, cache'))"
  shows "\<exists>aus cached oms defs c1 locs c2.
            definitionUploadIDsFromCursor r aus (go_elems oms)
              (c0\<lparr>AdjustedUploads := cached, OrderedMonikers := oms\<rparr>) = Inr (defs, c1)
          \<and> References_search r aus defs limit c1 cache = Some (Inr (locs, c2, cache'))
          \<and> tok = (if Phase c2 \<noteq> ''done'' then encodeCursor r c2 else [])"
  using res unfolding References_def dec
  apply (simp split: sum.splits prod.splits option.splits split del: if_split)
  apply (intro exI conjI)
    apply assumption
   apply assumption
  apply (erule sym)
  done


text \<open>
  Claim C7. Within one request the cursor's \<open>Phase\<close> only moves forward along
  \<open>local\<close>, \<open>remote\<close>, \<open>done\<close>. For the two phases of a page: the phase after is
  the phase before or a later one; it leaves \<open>local\<close> only when the local page
  reported no more results; it becomes \<open>done\<close> only when the remote loop of this
  very run, entered in phase \<open>remote\<close> with the cursor and locations the local
  phase left, reached a loop-head state with the page still short, requested the
  remote page there, and was told that there are no more results: the cursor returned
  is that call's cursor marked \<open>done\<close>, the cache is that call's cache and the
  locations are those collected so far followed by that call's. For the whole request:
  the cursor that is encoded into the next token (or dropped, when its phase is
  \<open>done\<close>) is at the phase of the decoded cursor or a later one.
\<close>

theorem References_phase_one_way:
  "(References_search r aus defs limit c cache = Some (Inr (locs, c', cache')) \<longrightarrow>
      phase_advance (Phase c) (Phase c')
    \<and> (Phase c = ''local'' \<and> Phase c' \<noteq> ''local'' \<longrightarrow>
         (\<exists>ls c1. pageLocalReferences r ''references'' aus c (go_sub limit 0)
                    = Inr (ls, False, c1)))
    \<and> (Phase c \<noteq> ''done'' \<and> Phase c' = ''done'' \<longrightarrow>
         (\<exists>ls0 cl n cR kR lsR rl c2.
             References_local r aus c limit = Inr (ls0, cl) \<and> Phase cl = ''remote''
           \<and> remoteRounds r aus defs limit n (cl, cache, ls0) = Some (cR, kR, lsR)
           \<and> Phase cR = ''remote'' \<and> int (length lsR) < limit
           \<and> pageRemoteReferences r ''references'' aus (go_elems (OrderedMonikers cR))
                defs cR kR (go_sub limit (int (length lsR)))
                = Some (Inr (rl, False, c2, cache'))
           \<and> c' = c2\<lparr>Phase := ''done''\<rparr> \<and> locs = lsR @ rl)))
   \<and> (decodeCursor r raw = Inr c0
      \<and> References r k line character limit raw = Some (Inr (als, tok, k')) \<longrightarrow>
        (\<exists>c2. phase_advance (Phase c0) (Phase c2)
            \<and> tok = (if Phase c2 \<noteq> ''done'' then encodeCursor r c2 else [])))"
  (is "(?search \<longrightarrow> ?phases) \<and> (?page \<longrightarrow> ?token)")
proof (rule conjI)
  show "?search \<longrightarrow> ?phases"
  proof (rule impI)
    assume ?search
    then show ?phases by (rule References_search_Phase)
  qed
next
  show "?page \<longrightarrow> ?token"
  proof (rule impI)
    assume ?page
    then have dec: "decodeCursor r raw = Inr c0"
      and res: "References r k line character limit raw = Some (Inr (als, tok, k'))"
      by simp_all
    from References_Inr [OF dec res] obtain aus' cached oms defs' c1 locs' c2 where
      d: "definitionUploadIDsFromCursor r aus' (go_elems oms)
                (c0\<lparr>AdjustedUploads := cached, OrderedMonikers := oms\<rparr>) = Inr (defs', c1)"
      and s: "References_search r aus' defs' limit c1 k = Some (Inr (locs', c2, k'))"
      and tok: "tok = (if Phase c2 \<noteq> ''done'' then encodeCursor r c2 else [])"
      by blast
    from Phase_definitionUploadIDsFromCursor [OF d] have "Phase c1 = Phase c0" by simp
    with References_search_Phase [OF s] have "phase_advance (Phase c0) (Phase c2)" by simp
    with tok show ?token by blast
  qed
qed

text \<open>
  The scenario of the specification: three local references and a page of ten; the
  local phase is drained, the remote phase finds no candidates, and the page ends the
  result set with an empty token.
\<close>

lemma scenario_fields:
  "decodeCursor scenarioResolver [] = Inr freshCursor"
  "adjustUploads scenarioResolver 10 4 = Inr [uploadAt 1 9 4]"
  "orderedMonikers scenarioResolver = (\<lambda>aus role. Inr (Some []))"
  "definitionUploads scenarioResolver = (\<lambda>ms. Inr [])"
  "adjustLocations scenarioResolver = (\<lambda>ls. Inr ls)"
  by (simp_all add: scenarioResolver_def threeRefs_def idleResolver_def)

lemma scenario_search:
  "References_search scenarioResolver [uploadAt 1 9 4] [] 10 scenarioCursor Map.empty
     = Some (Inr ([locationAt 1 1, locationAt 1 2, locationAt 1 3],
                  scenarioCursor\<lparr>Phase := ''done'', LocalBatchOffset := 1, BatchIDs := Some [],
                                 RemoteBatchOffset := - 1\<rparr>, Map.empty))"
  unfolding References_search_def References_local_def
  apply (simp add: scenarioResolver_def threeRefs_def pageLocalReferences_def
      idleResolver_def pagedStore_def scenarioCursor_def freshCursor_def go_add_def go_sub_def
      wrap64_def)
  apply (subst References_remoteLoop.simps)
  apply (subst pageRemoteReferences.simps)
  apply (subst pageRemoteReferences.simps)
  apply (simp add: uploadIDsWithReferences_def ignoreIDsMap_def deferClose_def
      sort_Ints_def go_len_def go_elems_def advanceRemoteBatch_def
      maximumIndexesPerMonikerSearch_def go_add_def go_sub_def wrap64_def)
  done

lemma scenario_page:
  "References scenarioResolver Map.empty 10 4 10 []
     = Some (Inr ([locationAt 1 1, locationAt 1 2, locationAt 1 3], [], Map.empty))"
proof -
  have a: "adjustedUploadsFromCursor scenarioResolver Map.empty 10 4 (AdjustedUploads freshCursor)
             = Inr ([uploadAt 1 9 4], Some [toCursorAdjustedUpload (uploadAt 1 9 4)])"
    by (simp add: adjustedUploadsFromCursor_def freshCursor_def scenario_fields)
  have m: "OrderedMonikers freshCursor = None"
    by (simp add: freshCursor_def)
  have d: "definitionUploadIDsFromCursor scenarioResolver [uploadAt 1 9 4] (go_elems (Some []))
             (freshCursor\<lparr>AdjustedUploads := Some [toCursorAdjustedUpload (uploadAt 1 9 4)],
                          OrderedMonikers := Some []\<rparr>) = Inr ([], scenarioCursor)"
    by (simp add: definitionUploadIDsFromCursor_def scenario_fields freshCursor_def
        scenarioCursor_def go_elems_def)
  show ?thesis
    unfolding References_def
    by (simp add: scenario_fields a m d scenario_search)
qed

lemma scenario_local:
  "References_local scenarioResolver [uploadAt 1 9 4] scenarioCursor 10
     = Inr ([locationAt 1 1, locationAt 1 2, locationAt 1 3],
            scenarioCursor\<lparr>Phase := ''remote'', LocalBatchOffset := 1\<rparr>)"
  by (simp add: References_local_def scenarioResolver_def threeRefs_def pageLocalReferences_def
      idleResolver_def pagedStore_def scenarioCursor_def freshCursor_def go_add_def go_sub_def
      wrap64_def)

lemma scenario_remote_page:
  "pageRemoteReferences scenarioResolver ''references'' [uploadAt 1 9 4]
       (go_elems (OrderedMonikers (scenarioCursor\<lparr>Phase := ''remote'', LocalBatchOffset := 1\<rparr>)))
       [] (scenarioCursor\<lparr>Phase := ''remote'', LocalBatchOffset := 1\<rparr>) Map.empty
       (go_sub 10 (int (length [locationAt 1 1, locationAt 1 2, locationAt 1 3])))
     = Some (Inr ([], False,
                  scenarioCursor\<lparr>Phase := ''remote'', LocalBatchOffset := 1,
                                 BatchIDs := Some [], RemoteBatchOffset := - 1\<rparr>, Map.empty))"
  apply (subst pageRemoteReferences.simps)
  apply (subst pageRemoteReferences.simps)
  apply (simp add: scenarioResolver_def threeRefs_def idleResolver_def scenarioCursor_def
      freshCursor_def uploadIDsWithReferences_def ignoreIDsMap_def deferClose_def
      sort_Ints_def go_len_def go_elems_def advanceRemoteBatch_def
      maximumIndexesPerMonikerSearch_def go_add_def go_sub_def wrap64_def)
  done

theorem References_phase_one_way_witness:
  "References_search scenarioResolver [uploadAt 1 9 4] [] 10 scenarioCursor Map.empty
     = Some (Inr ([locationAt 1 1, locationAt 1 2, locationAt 1 3],
                  scenarioCursor\<lparr>Phase := ''done'', LocalBatchOffset := 1, BatchIDs := Some [],
                                 RemoteBatchOffset := - 1\<rparr>, Map.empty))
   \<and> Phase scenarioCursor = ''local''
   \<and> phase_advance ''local'' ''done''
   \<and> References_local scenarioResolver [uploadAt 1 9 4] scenarioCursor 10
     = Inr ([locationAt 1 1, locationAt 1 2, locationAt 1 3],
            scenarioCursor\<lparr>Phase := ''remote'', LocalBatchOffset := 1\<rparr>)
   \<and> remoteRounds scenarioResolver [uploadAt 1 9 4] [] 10 0
        (scenarioCursor\<lparr>Phase := ''remote'', LocalBatchOffset := 1\<rparr>, Map.empty,
         [locationAt 1 1, locationAt 1 2, locationAt 1 3])
     = Some (scenarioCursor\<lparr>Phase := ''remote'', LocalBatchOffset := 1\<rparr>, Map.empty,
             [locationAt 1 1, locationAt 1 2, locationAt 1 3])
   \<and> pageRemoteReferences scenarioResolver ''references'' [uploadAt 1 9 4]
       (go_elems (OrderedMonikers (scenarioCursor\<lparr>Phase := ''remote'', LocalBatchOffset := 1\<rparr>)))
       [] (scenarioCursor\<lparr>Phase := ''remote'', LocalBatchOffset := 1\<rparr>) Map.empty
       (go_sub 10 (int (length [locationAt 1 1, locationAt 1 2, locationAt 1 3])))
     = Some (Inr ([], False,
                  scenarioCursor\<lparr>Phase := ''remote'', LocalBatchOffset := 1,
                                 BatchIDs := Some [], RemoteBatchOffset := - 1\<rparr>, Map.empty))
   \<and> decodeCursor scenarioResolver [] = Inr freshCursor
   \<and> References scenarioResolver Map.empty 10 4 10 []
     = Some (Inr ([locationAt 1 1, locationAt 1 2, locationAt 1 3], [], Map.empty))"
proof -
  note inst = References_phase_one_way
    [where r = scenarioResolver and aus = "[uploadAt 1 9 4]" and defs = "[]" and limit = 10
       and c = scenarioCursor and cache = Map.empty and raw = "[]" and c0 = freshCursor
       and k = Map.empty and line = 10 and character = 4
       and locs = "[locationAt 1 1, locationAt 1 2, locationAt 1 3]"
       and c' = "scenarioCursor\<lparr>Phase := ''done'', LocalBatchOffset := 1, BatchIDs := Some [],
                                 RemoteBatchOffset := - 1\<rparr>"
       and cache' = Map.empty and k' = Map.empty and tok = "[]"
       and als = "[locationAt 1 1, locationAt 1 2, locationAt 1 3]"]
  have ph: "Phase scenarioCursor = ''local''"
    by (simp add: scenarioCursor_def freshCursor_def)
  from inst scenario_search ph have adv: "phase_advance ''local'' ''done''"
    by simp
  have start: "remoteRounds scenarioResolver [uploadAt 1 9 4] [] 10 0
        (scenarioCursor\<lparr>Phase := ''remote'', LocalBatchOffset := 1\<rparr>, Map.empty,
         [locationAt 1 1, locationAt 1 2, locationAt 1 3])
     = Some (scenarioCursor\<lparr>Phase := ''remote'', LocalBatchOffset := 1\<rparr>, Map.empty,
             [locationAt 1 1, locationAt 1 2, locationAt 1 3])"
    by simp
  from scenario_search ph adv scenario_local start scenario_remote_page scenario_fields(1)
    scenario_page
  show ?thesis by (intro conjI)
qed

section \<open>Properties of the cursor codec\<close>

lemma of_char_digit: "d < 10 \<Longrightarrow> (of_char (digit d) :: nat) = 48 + d"
  by (simp add: digit_def)

lemma is_digit_digit: "d < 10 \<Longrightarrow> is_digit (digit d)"
  by (simp add: is_digit_def of_char_digit)

lemma digit_val_digit: "d < 10 \<Longrightarrow> digit_val (digit d) = d"
  by (simp add: digit_val_def of_char_digit)

lemma is_digit_not_mark:
  "is_digit c \<Longrightarrow> c \<noteq> CHR '';'' \<and> c \<noteq> CHR ''-'' \<and> c \<noteq> CHR ''N'' \<and> c \<noteq> CHR ''S''"
  by (auto simp: is_digit_def)

lemma dec_digits_digit:
  "d < 10 \<Longrightarrow> dec_digits acc (digit d # s) = dec_digits (10 * acc + d) s"
  using is_digit_not_mark [OF is_digit_digit, of d]
  by (simp add: is_digit_digit digit_val_digit)

lemma dec_digits_digits:
  "dec_digits acc (digits n @ s) = dec_digits (acc * 10 ^ length (digits n) + n) s"
proof (induction n arbitrary: acc s rule: digits.induct)
  case (1 n)
  show ?case
  proof (cases "n < 10")
    case True
    then have "digits n = [digit n]"
      by (subst digits.simps) simp
    with True show ?thesis
      by (simp add: dec_digits_digit mult.commute del: dec_digits.simps)
  next
    case False
    have "dec_digits acc (digits n @ s)
            = dec_digits acc (digits (n div 10) @ digit (n mod 10) # s)"
      using False by (subst digits.simps) simp
    also have "\<dots> = dec_digits (acc * 10 ^ length (digits (n div 10)) + n div 10)
                        (digit (n mod 10) # s)"
      using False by (rule "1.IH")
    also have "\<dots> = dec_digits (10 * (acc * 10 ^ length (digits (n div 10)) + n div 10)
                                  + n mod 10) s"
      by (simp add: dec_digits_digit del: dec_digits.simps)
    also have "10 * (acc * 10 ^ length (digits (n div 10)) + n div 10) + n mod 10
                 = acc * 10 ^ length (digits n) + n"
      using False by (subst (2) digits.simps) (simp add: algebra_simps)
    finally show ?thesis .
  qed
qed

lemma digits_head: "\<exists>d ds. d < 10 \<and> digits n = digit d # ds"
proof (induction n rule: digits.induct)
  case (1 n)
  show ?case
  proof (cases "n < 10")
    case True
    then show ?thesis by (subst digits.simps) auto
  next
    case False
    with "1.IH" obtain d ds where "d < 10" "digits (n div 10) = digit d # ds" by blast
    with False show ?thesis by (subst digits.simps) auto
  qed
qed

lemma dec_nat_enc_nat [simp]: "dec_nat (enc_nat n @ rest) = Some (n, rest)"
proof -
  obtain d ds where d: "d < 10" "digits n = digit d # ds"
    using digits_head by blast
  have "dec_digits 0 (digits n @ CHR '';'' # rest) = Some (n, rest)"
    by (simp add: dec_digits_digits)
  with d show ?thesis
    by (simp add: dec_nat_def enc_nat_def is_digit_digit)
qed

lemma enc_nat_head: "\<exists>c cs. is_digit c \<and> enc_nat n = c # cs"
  using digits_head [of n] by (auto simp: enc_nat_def is_digit_digit)

lemma dec_int_enc_int [simp]: "dec_int (enc_int i @ rest) = Some (i, rest)"
proof (cases "i < 0")
  case True
  then show ?thesis by (simp add: dec_int_def enc_int_def)
next
  case False
  obtain c cs where c: "is_digit c" "enc_nat (nat i) = c # cs"
    using enc_nat_head by blast
  have "dec_nat (enc_nat (nat i) @ rest) = Some (nat i, rest)" by simp
  with c False is_digit_not_mark [OF c(1)] show ?thesis
    by (simp add: dec_int_def enc_int_def)
qed

lemma dec_string_enc_string [simp]: "dec_string (enc_string s @ rest) = Some (s, rest)"
  by (simp add: dec_string_def enc_string_def)

lemma dec_items_enc:
  "(\<And>x rest. x \<in> set xs \<Longrightarrow> dec (enc x @ rest) = Some (x, rest)) \<Longrightarrow>
   dec_items dec (length xs) (concat (map enc xs) @ rest) = Some (xs, rest)"
  by (induction xs) simp_all

lemma dec_list_enc_list:
  "(\<And>x rest. x \<in> set xs \<Longrightarrow> dec (enc x @ rest) = Some (x, rest)) \<Longrightarrow>
   dec_list dec (enc_list enc xs @ rest) = Some (xs, rest)"
  by (simp add: dec_list_def enc_list_def dec_items_enc)

lemma dec_slice_enc_slice:
  "(\<And>x rest. dec (enc x @ rest) = Some (x, rest)) \<Longrightarrow>
   dec_slice dec (enc_slice enc s @ rest) = Some (s, rest)"
  by (cases s) (simp_all add: dec_slice_def enc_slice_def dec_list_enc_list)

lemma dec_Position_enc [simp]: "dec_Position (enc_Position p @ rest) = Some (p, rest)"
  by (simp add: dec_Position_def enc_Position_def)

lemma dec_cursorAdjustedUpload_enc [simp]:
  "dec_cursorAdjustedUpload (enc_cursorAdjustedUpload u @ rest) = Some (u, rest)"
  by (simp add: dec_cursorAdjustedUpload_def enc_cursorAdjustedUpload_def)

lemma dec_moniker_enc [simp]: "dec_moniker (enc_moniker m @ rest) = Some (m, rest)"
  by (simp add: dec_moniker_def enc_moniker_def)

lemma dec_fields_enc_fields: "dec_fields (enc_fields c @ rest) = Some (c, rest)"
  by (simp add: dec_fields_def enc_fields_def dec_slice_enc_slice)

text \<open>
  Claim C9. For every cursor, decoding the token that encodes it gives back the same
  cursor, field by field; in particular a cursor whose \<open>DefinitionUploadIDs\<close> is nil
  and one in which it is the empty list have different tokens and decode to
  themselves.
\<close>

theorem cursor_codec_round_trip:
  "spec_decodeCursor (spec_encodeCursor c) = Inr c
   \<and> spec_encodeCursor (c\<lparr>DefinitionUploadIDs := None\<rparr>)
       \<noteq> spec_encodeCursor (c\<lparr>DefinitionUploadIDs := Some []\<rparr>)"
proof -
  have nonempty: "enc_nat cursorVersion \<noteq> []"
    using enc_nat_head [of cursorVersion] by auto
  have round_trip: "spec_decodeCursor (spec_encodeCursor c') = Inr c'" for c'
  proof -
    have "dec_fields (enc_fields c') = Some (c', [])"
      using dec_fields_enc_fields [of c' "[]"] by simp
    with nonempty show ?thesis
      by (simp add: spec_decodeCursor_def spec_encodeCursor_def)
  qed
  have "spec_encodeCursor (c\<lparr>DefinitionUploadIDs := None\<rparr>)
          \<noteq> spec_encodeCursor (c\<lparr>DefinitionUploadIDs := Some []\<rparr>)"
  proof
    assume "spec_encodeCursor (c\<lparr>DefinitionUploadIDs := None\<rparr>)
              = spec_encodeCursor (c\<lparr>DefinitionUploadIDs := Some []\<rparr>)"
    then have "spec_decodeCursor (spec_encodeCursor (c\<lparr>DefinitionUploadIDs := None\<rparr>))
                 = spec_decodeCursor (spec_encodeCursor (c\<lparr>DefinitionUploadIDs := Some []\<rparr>))"
      by simp
    then have "c\<lparr>DefinitionUploadIDs := None\<rparr> = c\<lparr>DefinitionUploadIDs := Some []\<rparr>"
      by (simp only: round_trip sum.inject)
    then have "DefinitionUploadIDs (c\<lparr>DefinitionUploadIDs := None\<rparr>)
                 = DefinitionUploadIDs (c\<lparr>DefinitionUploadIDs := Some []\<rparr>)"
      by (rule arg_cong)
    then show False by simp
  qed
  with round_trip [of c] show ?thesis by simp
qed

text \<open>The token of the scenario's cursor, and the rejection of another version.\<close>

lemma scenario_token:
  "spec_encodeCursor scenarioCursor = ''1;S1;1;4;a.go9;4;4;a.goS0;S0;5;local0;0;N0;0;''"
  by code_simp

lemma other_version_rejected: "spec_decodeCursor ''2;NNN5;local0;0;N0;0;'' = Inl MalformedCursor"
  by code_simp

lemma empty_token_is_fresh: "spec_decodeCursor [] = Inr freshCursor"
  by (simp add: spec_decodeCursor_def)

end
